theory Spec2Isabelle
  imports Complex_Main
begin

section \<open>Errors and numeric conventions\<close>

text \<open>
  The exceptions of the Python source are values: a function that can raise returns
  \<open>error + 'a\<close>, with \<open>Inl\<close> for the exception. Floating-point numbers are modelled
  by the reals, Python's unbounded integers by \<open>nat\<close> and \<open>int\<close>.
\<close>

datatype error = ZeroDivisionError | ValueError | IndexError | KeyError | RuntimeError

definition bind_err :: "error + 'a \<Rightarrow> ('a \<Rightarrow> error + 'b) \<Rightarrow> error + 'b" where
  "bind_err m f = (case m of Inl e \<Rightarrow> Inl e | Inr x \<Rightarrow> f x)"

type_synonym vec = "real list"

text \<open>
  A pseudo-random generator is modelled by the numbers it yields: a draw is a number of
  the half-open unit interval, as \<open>random_sample\<close> of numpy and \<open>rand\<close> of torch yield
  them, and a generator is the sequence of its draws.
\<close>

typedef unit_draw = "{x::real. 0 \<le> x \<and> x < 1}"
  by (rule exI [of _ 0]) simp

type_synonym generator = "nat \<Rightarrow> unit_draw"

text \<open>
  Floating-point numbers. \<open>fl_round p q\<close> rounds a real number to the nearest number of
  the binary format with \<open>p\<close> significand bits whose smallest positive number is
  \<open>2\<^sup>-\<^sup>q\<close>, ties going to the even significand: the number is scaled to the grid of the
  smallest subnormals, the bits beyond the \<open>p\<close> leading ones are rounded away, and the
  result is scaled back. \<open>f32\<close> is the rounding of binary32 (torch's \<open>float\<close>) and \<open>f64\<close>
  that of binary64 (Python's \<open>float\<close>). A magnitude of \<open>2\<^sup>1\<^sup>2\<^sup>8\<close> or more, which binary32
  turns into an infinity, is outside the numbers \<open>is_f32\<close> accepts.
\<close>

fun bit_length :: "nat \<Rightarrow> nat" where
  "bit_length n = (if n = 0 then 0 else Suc (bit_length (n div 2)))"

declare bit_length.simps [simp del]

definition round_half_even :: "real \<Rightarrow> int" where
  "round_half_even y =
     (let n = \<lfloor>y\<rfloor>; r = y - of_int n
      in if r < 1 / 2 then n else if 1 / 2 < r then n + 1 else if even n then n else n + 1)"

definition fl_round :: "nat \<Rightarrow> nat \<Rightarrow> real \<Rightarrow> real" where
  "fl_round p q x =
     (let y = \<bar>x\<bar> * 2 ^ q;
          s = bit_length (nat \<lfloor>y\<rfloor>) - p
      in sgn x * of_int (round_half_even (y / 2 ^ s)) * 2 ^ s / 2 ^ q)"

definition f32 :: "real \<Rightarrow> real" where
  "f32 = fl_round 24 149"

definition f64 :: "real \<Rightarrow> real" where
  "f64 = fl_round 53 1074"

definition is_f32 :: "real \<Rightarrow> bool" where
  "is_f32 x \<longleftrightarrow> f32 x = x \<and> \<bar>x\<bar> < 2 ^ 128"

section \<open>ReplayBuffer (DDPGNetwork.py, lines 38-69)\<close>

text \<open>
  The five numpy arrays of the buffer are lists with one entry per slot. A state row has
  the buffer's state dimension, an action row its action dimension (the Transition of
  the data model), so that a row assignment is a slot update.
\<close>

record ReplayBuffer =
  mem_size :: nat
  mem_cntr :: nat
  state_memory :: "vec list"
  new_state_memory :: "vec list"
  action_memory :: "vec list"
  reward_memory :: "real list"
  terminal_memory :: "bool list"

text \<open>\<open>__init__\<close>: every array is \<open>np.zeros\<close>, the flag array of dtype bool.\<close>

definition ReplayBuffer_init :: "nat \<Rightarrow> nat \<Rightarrow> nat \<Rightarrow> ReplayBuffer" where
  "ReplayBuffer_init max_size input_shape n_actions =
     \<lparr> mem_size = max_size,
       mem_cntr = 0,
       state_memory = replicate max_size (replicate input_shape 0),
       new_state_memory = replicate max_size (replicate input_shape 0),
       action_memory = replicate max_size (replicate n_actions 0),
       reward_memory = replicate max_size 0,
       terminal_memory = replicate max_size False \<rparr>"

text \<open>
  The assignment \<open>arr[index] = row\<close> to a two-dimensional array: numpy stores a row of
  the array's row length, broadcasts a row of length 1 over the slot, and raises
  ValueError for a row of any other length. An index beyond the array is an IndexError.
\<close>

definition assign_row :: "vec list \<Rightarrow> nat \<Rightarrow> vec \<Rightarrow> error + vec list" where
  "assign_row arr index row =
     (if length arr \<le> index then Inl IndexError
      else
        let d = length (arr ! index) in
        if length row = d then Inr (arr[index := row])
        else if length row = 1 then Inr (arr[index := replicate d (row ! 0)])
        else Inl ValueError)"

text \<open>The assignment \<open>arr[index] = v\<close> of a scalar to a one-dimensional array.\<close>

definition assign_item :: "'a list \<Rightarrow> nat \<Rightarrow> 'a \<Rightarrow> error + 'a list" where
  "assign_item arr index v = (if length arr \<le> index then Inl IndexError else Inr (arr[index := v]))"

text \<open>
  \<open>store_transition\<close>: \<open>index = mem_cntr % mem_size\<close> raises ZeroDivisionError for a
  buffer of capacity 0. The five assignments follow in the order of the source, each
  with its own failure. The flag written is \<open>1 - done\<close>, converted to bool by the array.
\<close>

definition store_transition ::
  "ReplayBuffer \<Rightarrow> vec \<Rightarrow> vec \<Rightarrow> real \<Rightarrow> vec \<Rightarrow> bool \<Rightarrow> error + ReplayBuffer" where
  "store_transition b state action reward state' done =
     (if mem_size b = 0 then Inl ZeroDivisionError
      else
        let index = mem_cntr b mod mem_size b in
        bind_err (assign_row (state_memory b) index state) (\<lambda>state_memory'.
        bind_err (assign_row (new_state_memory b) index state') (\<lambda>new_state_memory'.
        bind_err (assign_row (action_memory b) index action) (\<lambda>action_memory'.
        bind_err (assign_item (reward_memory b) index reward) (\<lambda>reward_memory'.
        bind_err (assign_item (terminal_memory b) index
                    ((1::int) - (if done then 1 else 0) \<noteq> 0)) (\<lambda>terminal_memory'.
        Inr (b\<lparr> state_memory := state_memory',
                new_state_memory := new_state_memory',
                action_memory := action_memory',
                reward_memory := reward_memory',
                terminal_memory := terminal_memory',
                mem_cntr := mem_cntr b + 1 \<rparr>)))))))"

text \<open>
  \<open>np.random.choice(a, size)\<close> with an integer population \<open>a\<close> raises ValueError when
  \<open>a\<close> is not positive and samples are asked for; otherwise it returns \<open>size\<close> indices,
  each drawn from \<open>[0, a)\<close> with equal probability and independently of the others
  (with replacement). The \<open>i\<close>-th index is the \<open>i\<close>-th draw of the generator scaled to
  the population: the draws of the interval \<open>[k/a, (k+1)/a)\<close> give the index \<open>k\<close>.
\<close>

definition random_choice :: "nat \<Rightarrow> nat \<Rightarrow> generator \<Rightarrow> error + nat list" where
  "random_choice a sz rng =
     (if a = 0 \<and> sz \<noteq> 0 then Inl ValueError
      else Inr (map (\<lambda>i. nat \<lfloor>Rep_unit_draw (rng i) * real a\<rfloor>) [0..<sz]))"

text \<open>Indexing an array by an index array: one entry per index, IndexError out of range.\<close>

definition fancy_index :: "'a list \<Rightarrow> nat list \<Rightarrow> error + 'a list" where
  "fancy_index arr batch =
     (if list_all (\<lambda>i. i < length arr) batch then Inr (map (\<lambda>i. arr ! i) batch)
      else Inl IndexError)"

type_synonym batch_arrays = "vec list \<times> vec list \<times> real list \<times> vec list \<times> bool list"

definition sample_buffer :: "ReplayBuffer \<Rightarrow> nat \<Rightarrow> generator \<Rightarrow> error + batch_arrays" where
  "sample_buffer b batch_size rng =
     (let max_mem = min (mem_cntr b) (mem_size b) in
      bind_err (random_choice max_mem batch_size rng) (\<lambda>batch.
      bind_err (fancy_index (state_memory b) batch) (\<lambda>states.
      bind_err (fancy_index (action_memory b) batch) (\<lambda>actions.
      bind_err (fancy_index (reward_memory b) batch) (\<lambda>rewards.
      bind_err (fancy_index (new_state_memory b) batch) (\<lambda>states'.
      bind_err (fancy_index (terminal_memory b) batch) (\<lambda>terminal.
      Inr (states, actions, rewards, states', terminal))))))))"

section \<open>Networks (DDPGNetwork.py, lines 72-199)\<close>

text \<open>
  A parameter tensor is the list of its elements in row-major order. Parameters are
  objects that several dictionaries may refer to, so they live in a store: a network
  holds the address of each of its parameters under the parameter's name, in the order
  of \<open>named_parameters()\<close>, and the store maps an address to the tensor's value.
\<close>

type_synonym tensor = "real list"
type_synonym addr = nat
type_synonym heap = "addr \<Rightarrow> tensor"

record Network =
  input_dims :: nat
  fc1_dims :: nat
  fc2_dims :: nat
  n_actions :: nat
  named_parameters :: "(string \<times> addr) list"

text \<open>
  \<open>T.nn.init.uniform_(t, a, b)\<close> overwrites every element of \<open>t\<close> by \<open>a + (b - a) * u\<close>
  for a fresh draw \<open>u\<close> of the generator, one per element.
\<close>

definition nn_init_uniform :: "real \<Rightarrow> real \<Rightarrow> nat \<Rightarrow> generator \<Rightarrow> tensor" where
  "nn_init_uniform a b numel us = map (\<lambda>i. a + (b - a) * Rep_unit_draw (us i)) [0..<numel]"

text \<open>\<open>nn.Linear(in_features, out_features).weight.data.size()\<close>.\<close>

definition Linear_weight_size :: "nat \<Rightarrow> nat \<Rightarrow> nat list" where
  "Linear_weight_size in_features out_features = [out_features, in_features]"

text \<open>
  A layer the constructor does not initialise itself keeps the initial values of
  \<open>nn.Linear\<close>: weight and bias uniform on \<open>[-1/sqrt(in_features), 1/sqrt(in_features)]\<close>.
  \<open>nn.LayerNorm\<close> starts with weight 1 and bias 0.
\<close>

definition Linear_default_bound :: "nat \<Rightarrow> real" where
  "Linear_default_bound in_features = 1 / sqrt (real in_features)"

text \<open>Allocation of fresh parameters at the addresses from \<open>base\<close> on.\<close>

definition alloc :: "addr \<Rightarrow> (string \<times> tensor) list \<Rightarrow> heap \<Rightarrow> (string \<times> addr) list \<times> heap" where
  "alloc base ts h =
     (zip (map fst ts) [base..<base + length ts],
      (\<lambda>a. if base \<le> a \<and> a < base + length ts then snd (ts ! (a - base)) else h a))"

text \<open>
  \<open>ActorNetwork.__init__\<close> (lines 161-177). \<open>rng\<close> gives the generator's unit draws for
  each parameter, by its name.
\<close>

definition ActorNetwork_init ::
  "(string \<Rightarrow> generator) \<Rightarrow> addr \<Rightarrow> nat \<Rightarrow> nat \<Rightarrow> nat \<Rightarrow> nat \<Rightarrow> heap \<Rightarrow> Network \<times> heap" where
  "ActorNetwork_init rng base input_dims' fc1_dims' fc2_dims' n_actions' h =
     (let f1 = 1 / sqrt (real (Linear_weight_size input_dims' fc1_dims' ! 0));
          f2 = 1 / sqrt (real (Linear_weight_size fc1_dims' fc2_dims' ! 0));
          f4 = 3 / 1000;
          (ps, h') = alloc base
            [(''fc1.weight'', nn_init_uniform (- f1) f1 (fc1_dims' * input_dims') (rng ''fc1.weight'')),
             (''fc1.bias'', nn_init_uniform (- f1) f1 fc1_dims' (rng ''fc1.bias'')),
             (''bn1.weight'', replicate fc1_dims' 1),
             (''bn1.bias'', replicate fc1_dims' 0),
             (''fc2.weight'', nn_init_uniform (- f2) f2 (fc2_dims' * fc1_dims') (rng ''fc2.weight'')),
             (''fc2.bias'', nn_init_uniform (- f2) f2 fc2_dims' (rng ''fc2.bias'')),
             (''bn2.weight'', replicate fc2_dims' 1),
             (''bn2.bias'', replicate fc2_dims' 0),
             (''mu.weight'', nn_init_uniform (- f4) f4 (n_actions' * fc2_dims') (rng ''mu.weight'')),
             (''mu.bias'', nn_init_uniform (- f4) f4 n_actions' (rng ''mu.bias''))] h
      in (\<lparr> input_dims = input_dims', fc1_dims = fc1_dims', fc2_dims = fc2_dims',
             n_actions = n_actions', named_parameters = ps \<rparr>, h'))"

text \<open>\<open>CriticNetwork.__init__\<close> (lines 92-112).\<close>

definition CriticNetwork_init ::
  "(string \<Rightarrow> generator) \<Rightarrow> addr \<Rightarrow> nat \<Rightarrow> nat \<Rightarrow> nat \<Rightarrow> nat \<Rightarrow> heap \<Rightarrow> Network \<times> heap" where
  "CriticNetwork_init rng base input_dims' fc1_dims' fc2_dims' n_actions' h =
     (let f1 = 1 / sqrt (real (Linear_weight_size input_dims' fc1_dims' ! 0));
          f2 = 1 / sqrt (real (Linear_weight_size fc1_dims' fc2_dims' ! 0));
          fa = Linear_default_bound n_actions';
          f4 = 3 / 1000;
          (ps, h') = alloc base
            [(''fc1.weight'', nn_init_uniform (- f1) f1 (fc1_dims' * input_dims') (rng ''fc1.weight'')),
             (''fc1.bias'', nn_init_uniform (- f1) f1 fc1_dims' (rng ''fc1.bias'')),
             (''bn1.weight'', replicate fc1_dims' 1),
             (''bn1.bias'', replicate fc1_dims' 0),
             (''fc2.weight'', nn_init_uniform (- f2) f2 (fc2_dims' * fc1_dims') (rng ''fc2.weight'')),
             (''fc2.bias'', nn_init_uniform (- f2) f2 fc2_dims' (rng ''fc2.bias'')),
             (''bn2.weight'', replicate fc2_dims' 1),
             (''bn2.bias'', replicate fc2_dims' 0),
             (''action_value.weight'',
                nn_init_uniform (- fa) fa (fc2_dims' * n_actions') (rng ''action_value.weight'')),
             (''action_value.bias'', nn_init_uniform (- fa) fa fc2_dims' (rng ''action_value.bias'')),
             (''q.weight'', nn_init_uniform (- f4) f4 (1 * fc2_dims') (rng ''q.weight'')),
             (''q.bias'', nn_init_uniform (- f4) f4 1 (rng ''q.bias''))] h
      in (\<lparr> input_dims = input_dims', fc1_dims = fc1_dims', fc2_dims = fc2_dims',
             n_actions = n_actions', named_parameters = ps \<rparr>, h'))"

subsection \<open>Forward passes\<close>

text \<open>
  The sums and quotients inside a layer are the exact operations on the reals: their
  rounding depends on the order in which torch's kernels accumulate, which the source
  does not fix. The values a forward pass returns are therefore those of the layers
  computed without rounding error, and infinities and NaN do not occur.
\<close>

text \<open>The value of a network's parameter, read from the store.\<close>

definition get_param :: "heap \<Rightarrow> Network \<Rightarrow> string \<Rightarrow> error + tensor" where
  "get_param h net name =
     (case map_of (named_parameters net) name of None \<Rightarrow> Inl KeyError | Some a \<Rightarrow> Inr (h a))"

text \<open>
  \<open>nn.Linear\<close> on one input row: \<open>x W\<^sup>T + b\<close>, with \<open>W\<close> of size
  \<open>[out_features, in_features]\<close>; a row of another length is a RuntimeError.
\<close>

definition Linear :: "nat \<Rightarrow> nat \<Rightarrow> tensor \<Rightarrow> tensor \<Rightarrow> vec \<Rightarrow> error + vec" where
  "Linear in_features out_features W b x =
     (if length x \<noteq> in_features then Inl RuntimeError
      else Inr (map (\<lambda>i. sum_list (map2 (*) (take in_features (drop (i * in_features) W)) x) + b ! i)
                  [0..<out_features]))"

text \<open>\<open>nn.LayerNorm\<close> over the last dimension, with its \<open>eps = 1e-5\<close> and biased variance.\<close>

definition LayerNorm :: "tensor \<Rightarrow> tensor \<Rightarrow> vec \<Rightarrow> vec" where
  "LayerNorm w b x =
     (let n = real (length x);
          mean = sum_list x / n;
          var = sum_list (map (\<lambda>v. (v - mean)\<^sup>2) x) / n
      in map (\<lambda>i. (x ! i - mean) / sqrt (var + 1 / 100000) * w ! i + b ! i) [0..<length x])"

definition relu :: "vec \<Rightarrow> vec" where
  "relu x = map (max 0) x"

text \<open>
  \<open>T.tanh\<close> on an element of a \<open>float\<close> tensor: the hyperbolic tangent, rounded to
  binary32.
\<close>

definition torch_tanh :: "real \<Rightarrow> real" where
  "torch_tanh v = f32 (tanh v)"

text \<open>\<open>ActorNetwork.forward\<close> (lines 182-191) on one state row.\<close>

definition ActorNetwork_forward :: "heap \<Rightarrow> Network \<Rightarrow> vec \<Rightarrow> error + vec" where
  "ActorNetwork_forward h net state =
     bind_err (get_param h net ''fc1.weight'') (\<lambda>fc1_w.
     bind_err (get_param h net ''fc1.bias'') (\<lambda>fc1_b.
     bind_err (get_param h net ''bn1.weight'') (\<lambda>bn1_w.
     bind_err (get_param h net ''bn1.bias'') (\<lambda>bn1_b.
     bind_err (get_param h net ''fc2.weight'') (\<lambda>fc2_w.
     bind_err (get_param h net ''fc2.bias'') (\<lambda>fc2_b.
     bind_err (get_param h net ''bn2.weight'') (\<lambda>bn2_w.
     bind_err (get_param h net ''bn2.bias'') (\<lambda>bn2_b.
     bind_err (get_param h net ''mu.weight'') (\<lambda>mu_w.
     bind_err (get_param h net ''mu.bias'') (\<lambda>mu_b.
     bind_err (Linear (input_dims net) (fc1_dims net) fc1_w fc1_b state) (\<lambda>x.
     let x = LayerNorm bn1_w bn1_b x;
         x = relu x in
     bind_err (Linear (fc1_dims net) (fc2_dims net) fc2_w fc2_b x) (\<lambda>x.
     let x = LayerNorm bn2_w bn2_b x;
         x = relu x in
     bind_err (Linear (fc2_dims net) (n_actions net) mu_w mu_b x) (\<lambda>x.
     Inr (map torch_tanh x))))))))))))))"

text \<open>\<open>CriticNetwork.forward\<close> (lines 118-130) on one state row and one action row.\<close>

definition CriticNetwork_forward :: "heap \<Rightarrow> Network \<Rightarrow> vec \<Rightarrow> vec \<Rightarrow> error + vec" where
  "CriticNetwork_forward h net state action =
     bind_err (get_param h net ''fc1.weight'') (\<lambda>fc1_w.
     bind_err (get_param h net ''fc1.bias'') (\<lambda>fc1_b.
     bind_err (get_param h net ''bn1.weight'') (\<lambda>bn1_w.
     bind_err (get_param h net ''bn1.bias'') (\<lambda>bn1_b.
     bind_err (get_param h net ''fc2.weight'') (\<lambda>fc2_w.
     bind_err (get_param h net ''fc2.bias'') (\<lambda>fc2_b.
     bind_err (get_param h net ''bn2.weight'') (\<lambda>bn2_w.
     bind_err (get_param h net ''bn2.bias'') (\<lambda>bn2_b.
     bind_err (get_param h net ''action_value.weight'') (\<lambda>av_w.
     bind_err (get_param h net ''action_value.bias'') (\<lambda>av_b.
     bind_err (get_param h net ''q.weight'') (\<lambda>q_w.
     bind_err (get_param h net ''q.bias'') (\<lambda>q_b.
     bind_err (Linear (input_dims net) (fc1_dims net) fc1_w fc1_b state) (\<lambda>state_value.
     let state_value = LayerNorm bn1_w bn1_b state_value;
         state_value = relu state_value in
     bind_err (Linear (fc1_dims net) (fc2_dims net) fc2_w fc2_b state_value) (\<lambda>state_value.
     let state_value = LayerNorm bn2_w bn2_b state_value;
         state_value = relu state_value in
     bind_err (Linear (n_actions net) (fc2_dims net) av_w av_b action) (\<lambda>action_value.
     let action_value = relu action_value;
         state_action_value = relu (map2 (+) state_value action_value) in
     Linear (fc2_dims net) 1 q_w q_b state_action_value)))))))))))))))"

text \<open>A forward pass over a batch is the pass over each of its rows.\<close>

fun map_err :: "('a \<Rightarrow> error + 'b) \<Rightarrow> 'a list \<Rightarrow> error + 'b list" where
  "map_err f [] = Inr []"
| "map_err f (x # xs) =
     bind_err (f x) (\<lambda>y. bind_err (map_err f xs) (\<lambda>ys. Inr (y # ys)))"

section \<open>Agent (DDPGNetwork.py, lines 202-344)\<close>

text \<open>
  \<open>params\<close> is the store of the parameter tensors of the four networks. The two loss
  attributes start as empty lists (\<open>None\<close>) and hold a number once \<open>learn\<close> has recorded one.
\<close>

record Agent =
  gamma :: real
  tau :: real
  memory :: ReplayBuffer
  batch_size :: nat
  actor :: Network
  critic :: Network
  target_actor :: Network
  target_critic :: Network
  actor_loss :: "real option"
  critic_loss :: "real option"
  params :: heap

subsection \<open>Soft update of the target networks (lines 316-344)\<close>

text \<open>
  The expression \<open>tau * source + (1 - tau) * target\<close> on one element of two \<open>float\<close>
  tensors: \<open>tau\<close> and \<open>1 - tau\<close> are Python floats, the second computed in binary64;
  a tensor operation converts its scalar operand to binary32 and rounds its result to
  binary32.
\<close>

definition polyak :: "real \<Rightarrow> real \<Rightarrow> real \<Rightarrow> real" where
  "polyak t x y = f32 (f32 (f32 t * x) + f32 (f32 (f64 (1 - t)) * y))"

text \<open>
  One loop of \<open>update_network_parameters\<close>: for every name of the source dictionary, the
  entry becomes the fresh tensor \<open>tau * source.clone() + (1 - tau) * target.clone()\<close>.
  A name the target dictionary lacks is a KeyError. The two tensors of one name have the
  same size in two networks of one architecture; sizes that differ are reported as a
  RuntimeError.
\<close>

fun blend ::
  "real \<Rightarrow> heap \<Rightarrow> (string \<times> addr) list \<Rightarrow> (string \<times> addr) list \<Rightarrow> error + (string \<times> tensor) list" where
  "blend t h [] target = Inr []"
| "blend t h ((name, a) # rest) target =
     (case map_of target name of
        None \<Rightarrow> Inl KeyError
      | Some a' \<Rightarrow>
          if length (h a) \<noteq> length (h a') then Inl RuntimeError
          else bind_err (blend t h rest target) (\<lambda>sd.
                 Inr ((name, map2 (polyak t) (h a) (h a')) # sd)))"

text \<open>
  \<open>load_state_dict\<close> (strict): the keys of the dictionary must be the names of the
  module's parameters and every tensor must have its parameter's size; then every
  parameter of the module is overwritten in place by the tensor of its name.
\<close>

definition load_state_dict ::
  "(string \<times> addr) list \<Rightarrow> (string \<times> tensor) list \<Rightarrow> heap \<Rightarrow> error + heap" where
  "load_state_dict target sd h =
     (if set (map fst target) \<noteq> set (map fst sd) then Inl RuntimeError
      else if \<not> list_all (\<lambda>(name, a). case map_of sd name of
                                          None \<Rightarrow> False
                                        | Some t \<Rightarrow> length t = length (h a)) target
      then Inl RuntimeError
      else Inr (fold (\<lambda>(name, a) h'. case map_of sd name of
                                        None \<Rightarrow> h'
                                      | Some t \<Rightarrow> h'(a := t)) target h))"

definition update_network_parameters :: "real option \<Rightarrow> Agent \<Rightarrow> error + Agent" where
  "update_network_parameters tau_arg ag =
     (let t = (case tau_arg of None \<Rightarrow> tau ag | Some t' \<Rightarrow> t');
          actor_params = named_parameters (actor ag);
          critic_params = named_parameters (critic ag);
          target_actor_params = named_parameters (target_actor ag);
          target_critic_params = named_parameters (target_critic ag)
      in
      bind_err (blend t (params ag) critic_params target_critic_params) (\<lambda>critic_state_dict.
      bind_err (load_state_dict target_critic_params critic_state_dict (params ag)) (\<lambda>h1.
      bind_err (blend t h1 actor_params target_actor_params) (\<lambda>actor_state_dict.
      bind_err (load_state_dict target_actor_params actor_state_dict h1) (\<lambda>h2.
      Inr (ag\<lparr> params := h2 \<rparr>))))))"

subsection \<open>Construction (lines 203-257)\<close>

text \<open>
  \<open>rng\<close> gives the generator's draws by network name and parameter name. The learning
  rates \<open>alpha\<close> and \<open>beta\<close> only configure the optimizers, and the exploration noise takes
  no part in the operations modelled here.
\<close>

definition Agent_init ::
  "(string \<Rightarrow> string \<Rightarrow> generator) \<Rightarrow> real \<Rightarrow> nat \<Rightarrow> nat \<Rightarrow> nat \<Rightarrow> nat \<Rightarrow> nat \<Rightarrow> real \<Rightarrow> nat
     \<Rightarrow> error + Agent" where
  "Agent_init rng tau' n_actions' input_dims' layer1_size layer2_size batch_size' gamma' max_size =
     (let (a, h1) = ActorNetwork_init (rng ''Actor'') 0
                      input_dims' layer1_size layer2_size n_actions' (\<lambda>_. []);
          b1 = length (named_parameters a);
          (c, h2) = CriticNetwork_init (rng ''Critic'') b1
                      input_dims' layer1_size layer2_size n_actions' h1;
          b2 = b1 + length (named_parameters c);
          (ta, h3) = ActorNetwork_init (rng ''TargetActor'') b2
                      input_dims' layer1_size layer2_size n_actions' h2;
          b3 = b2 + length (named_parameters ta);
          (tc, h4) = CriticNetwork_init (rng ''TargetCritic'') b3
                      input_dims' layer1_size layer2_size n_actions' h3
      in update_network_parameters (Some 1)
           \<lparr> gamma = gamma', tau = tau',
             memory = ReplayBuffer_init max_size input_dims' n_actions',
             batch_size = batch_size',
             actor = a, critic = c, target_actor = ta, target_critic = tc,
             actor_loss = None, critic_loss = None, params = h4 \<rparr>)"

definition remember :: "Agent \<Rightarrow> vec \<Rightarrow> vec \<Rightarrow> real \<Rightarrow> vec \<Rightarrow> bool \<Rightarrow> error + Agent" where
  "remember ag state action reward new_state done =
     bind_err (store_transition (memory ag) state action reward new_state done) (\<lambda>m.
     Inr (ag\<lparr> memory := m \<rparr>))"

subsection \<open>The learning update (lines 270-314)\<close>

text \<open>
  \<open>T.tensor(x, dtype=T.float)\<close> converts the numbers of a numpy array to binary32.
\<close>

definition tensor_float :: "real list \<Rightarrow> real list" where
  "tensor_float x = map f32 x"

text \<open>
  The loop of lines 290-292. \<open>critic_value'\<close> is the output of the target critic, one
  row with one element per sample; \<open>done\<close> holds the flags as the buffer stores them,
  and \<open>int(done[j])\<close> is 1 for a flag that is set. \<open>gamma\<close> is a Python float; the
  product with it, the product with the flag and the sum are operations on \<open>float\<close>
  tensors, each rounded to binary32.
\<close>

definition td_target :: "real \<Rightarrow> real list \<Rightarrow> vec list \<Rightarrow> bool list \<Rightarrow> nat \<Rightarrow> real list" where
  "td_target gamma' reward critic_value' done n =
     map (\<lambda>j. f32 (reward ! j
                   + f32 (f32 (f32 gamma' * (critic_value' ! j ! 0)) * (if done ! j then 1 else 0))))
       [0..<n]"

definition mse_loss :: "real list \<Rightarrow> vec list \<Rightarrow> real" where
  "mse_loss target critic_value =
     sum_list (map2 (\<lambda>y q. (y - q ! 0)\<^sup>2) target critic_value) / real (length target)"

definition mean_neg :: "vec list \<Rightarrow> real" where
  "mean_neg q = sum_list (map (\<lambda>v. - (v ! 0)) q) / real (length q)"

text \<open>
  \<open>optimizer.step()\<close>: the optimizer of a network changes the parameters of that network
  in place. The amount Adam subtracts from each element (computed by torch from the
  gradient of the loss and the moment estimates) is the parameter \<open>delta\<close>, by parameter
  name and element.
\<close>

definition optimizer_step :: "(string \<times> addr) list \<Rightarrow> (string \<Rightarrow> nat \<Rightarrow> real) \<Rightarrow> heap \<Rightarrow> heap" where
  "optimizer_step ps delta h =
     fold (\<lambda>(name, a) h'. h'(a := map (\<lambda>i. h' a ! i - delta name i) [0..<length (h' a)])) ps h"

definition learn ::
  "generator \<Rightarrow> (string \<Rightarrow> nat \<Rightarrow> real) \<Rightarrow> (string \<Rightarrow> nat \<Rightarrow> real) \<Rightarrow> Agent \<Rightarrow> error + Agent" where
  "learn rng critic_delta actor_delta ag =
     (if mem_cntr (memory ag) < batch_size ag then Inr ag
      else
        bind_err (sample_buffer (memory ag) (batch_size ag) rng)
          (\<lambda>(state, action, reward, new_state, done).
        let state = map tensor_float state;
            action = map tensor_float action;
            reward = tensor_float reward;
            new_state = map tensor_float new_state
        in
        bind_err (map_err (ActorNetwork_forward (params ag) (target_actor ag)) new_state)
          (\<lambda>target_actions.
        bind_err (map_err (\<lambda>(s, a). CriticNetwork_forward (params ag) (target_critic ag) s a)
                    (zip new_state target_actions))
          (\<lambda>critic_value'.
        bind_err (map_err (\<lambda>(s, a). CriticNetwork_forward (params ag) (critic ag) s a)
                    (zip state action))
          (\<lambda>critic_value.
        let target = td_target (gamma ag) reward critic_value' done (batch_size ag);
            critic_loss' = mse_loss target critic_value;
            h1 = optimizer_step (named_parameters (critic ag)) critic_delta (params ag)
        in
        bind_err (map_err (ActorNetwork_forward h1 (actor ag)) state)
          (\<lambda>mu.
        bind_err (map_err (\<lambda>(s, a). CriticNetwork_forward h1 (critic ag) s a) (zip state mu))
          (\<lambda>q.
        let actor_loss' = mean_neg q;
            h2 = optimizer_step (named_parameters (actor ag)) actor_delta h1
        in
        update_network_parameters None
          (ag\<lparr> critic_loss := Some critic_loss', actor_loss := Some actor_loss',
                params := h2 \<rparr>))))))))"

section \<open>Process entry point (DDPG_run.py, lines 94-117)\<close>

text \<open>Python list indexing: a negative index counts from the end.\<close>

definition list_getitem :: "'a list \<Rightarrow> int \<Rightarrow> error + 'a" where
  "list_getitem xs i =
     (let n = int (length xs);
          j = (if i < 0 then n + i else i)
      in if 0 \<le> j \<and> j < n then Inr (xs ! nat j) else Inl IndexError)"

text \<open>
  \<open>Pool(processes=n)\<close> raises ValueError unless \<open>n\<close> is at least 1, and
  \<open>np.arange(n).tolist()\<close> is the list of the naturals below \<open>n\<close>.
\<close>

definition Pool :: "int \<Rightarrow> error + nat" where
  "Pool processes = (if processes < 1 then Inl ValueError else Inr (nat processes))"

definition arange :: "int \<Rightarrow> int list" where
  "arange n = map int [0..<nat n]"

text \<open>
  \<open>DDPG_main\<close> on the experiment name and the three numbers read from the console. It
  returns the calls of \<open>run\<close> the pool makes: the run index with the id of the
  environment that \<open>run\<close> constructs first, before its Agent.
\<close>

definition task_list :: "string list" where
  "task_list = [''Reach'', ''Push'', ''PickAndPlace'', ''Slide'', ''Stack'']"

definition reward_list :: "string list" where
  "reward_list = [''Dense'', []]"

definition DDPG_main :: "string \<Rightarrow> int \<Rightarrow> int \<Rightarrow> int \<Rightarrow> error + (int \<times> string) list" where
  "DDPG_main exp_name task_number reward_type no_runs =
     bind_err (list_getitem task_list task_number) (\<lambda>task.
     bind_err (list_getitem reward_list reward_type) (\<lambda>reward.
     let rList = arange no_runs in
     bind_err (Pool no_runs) (\<lambda>pool.
     Inr (map (\<lambda>run. (run, ''Panda'' @ task @ reward @ ''-v2'')) rList))))"

section \<open>Notions used in the statements\<close>

text \<open>
  A transition as \<open>remember\<close> receives it, the content of one slot of the buffer, and
  the form in which a transition is stored (the flag is the inverted \<open>done\<close>).
  \<open>store_all\<close> stores a sequence of transitions one after the other, and \<open>buffer_ok\<close>
  says that the five arrays have one entry per slot, as \<open>__init__\<close> builds them.
\<close>

type_synonym transition = "vec \<times> vec \<times> real \<times> vec \<times> bool"

fun store_all :: "ReplayBuffer \<Rightarrow> transition list \<Rightarrow> error + ReplayBuffer" where
  "store_all b [] = Inr b"
| "store_all b ((s, a, r, s', d) # ts) =
     bind_err (store_transition b s a r s' d) (\<lambda>b'. store_all b' ts)"

definition slot :: "ReplayBuffer \<Rightarrow> nat \<Rightarrow> transition" where
  "slot b i = (state_memory b ! i, action_memory b ! i, reward_memory b ! i,
               new_state_memory b ! i, terminal_memory b ! i)"

fun stored :: "transition \<Rightarrow> transition" where
  "stored (s, a, r, s', d) = (s, a, r, s', \<not> d)"

definition buffer_ok :: "ReplayBuffer \<Rightarrow> bool" where
  "buffer_ok b \<longleftrightarrow>
     length (state_memory b) = mem_size b \<and> length (new_state_memory b) = mem_size b \<and>
     length (action_memory b) = mem_size b \<and> length (reward_memory b) = mem_size b \<and>
     length (terminal_memory b) = mem_size b"

text \<open>
  A transition has the shape of a buffer of state dimension \<open>D\<close> and action dimension
  \<open>A\<close> when its two state rows have \<open>D\<close> elements and its action row \<open>A\<close>; the buffer
  has that shape when every row of its arrays has.
\<close>

fun shaped :: "nat \<Rightarrow> nat \<Rightarrow> transition \<Rightarrow> bool" where
  "shaped D A (s, a, r, s', d) \<longleftrightarrow> length s = D \<and> length a = A \<and> length s' = D"

definition buffer_shaped :: "nat \<Rightarrow> nat \<Rightarrow> ReplayBuffer \<Rightarrow> bool" where
  "buffer_shaped D A b \<longleftrightarrow>
     buffer_ok b \<and> list_all (\<lambda>s. length s = D) (state_memory b) \<and>
     list_all (\<lambda>s. length s = D) (new_state_memory b) \<and>
     list_all (\<lambda>a. length a = A) (action_memory b)"

text \<open>
  Two networks have the same architecture when they have the same parameter names, in
  the same order and without repetition, and parameters of the same name have the same
  number of elements. In an agent as \<open>__init__\<close> builds it, each target network has the
  architecture of its source network and no two parameters of the four networks are
  the same object.
\<close>

definition same_architecture :: "heap \<Rightarrow> Network \<Rightarrow> Network \<Rightarrow> bool" where
  "same_architecture h src tgt \<longleftrightarrow>
     map fst (named_parameters src) = map fst (named_parameters tgt) \<and>
     distinct (map fst (named_parameters src)) \<and>
     list_all2 (\<lambda>p q. length (h (snd p)) = length (h (snd q)))
       (named_parameters src) (named_parameters tgt)"

definition agent_ok :: "Agent \<Rightarrow> bool" where
  "agent_ok ag \<longleftrightarrow>
     same_architecture (params ag) (actor ag) (target_actor ag) \<and>
     same_architecture (params ag) (critic ag) (target_critic ag) \<and>
     distinct (map snd (named_parameters (actor ag) @ named_parameters (critic ag) @
                        named_parameters (target_actor ag) @ named_parameters (target_critic ag)))"



text \<open>
  A synthetic agent whose networks have two parameters each, used to instantiate the
  statements: parameter \<open>weight\<close> with two elements and \<open>bias\<close> with one.
\<close>

definition toy_network :: "addr \<Rightarrow> Network" where
  "toy_network base =
     \<lparr> input_dims = 2, fc1_dims = 1, fc2_dims = 1, n_actions = 1,
       named_parameters = [(''weight'', base), (''bias'', base + 1)] \<rparr>"

definition toy_heap :: heap where
  "toy_heap a =
     (if a = 0 then [1, 2] else if a = 1 then [3]
      else if a = 2 then [10, 20] else if a = 3 then [30]
      else if a = 4 then [5, 6] else if a = 5 then [7]
      else if a = 6 then [50, 60] else if a = 7 then [70] else [])"

definition toy_agent :: Agent where
  "toy_agent =
     \<lparr> gamma = 99 / 100, tau = 1 / 2, memory = ReplayBuffer_init 10 2 1, batch_size = 2,
       actor = toy_network 0, critic = toy_network 2,
       target_actor = toy_network 4, target_critic = toy_network 6,
       actor_loss = None, critic_loss = None, params = toy_heap \<rparr>"

section \<open>Basic lemmas\<close>

lemma bind_err_Inr [simp]: "bind_err (Inr x) f = f x"
  by (simp add: bind_err_def)

lemma bind_err_Inl [simp]: "bind_err (Inl e) f = Inl e"
  by (simp add: bind_err_def)

lemma bind_err_eq_Inr: "bind_err m f = Inr y \<longleftrightarrow> (\<exists>x. m = Inr x \<and> f x = Inr y)"
  by (cases m) simp_all

section \<open>Rounding\<close>

lemma bit_length_0 [simp]: "bit_length 0 = 0"
  by (simp add: bit_length.simps)

lemma bit_length_le: "n < 2 ^ k \<Longrightarrow> bit_length n \<le> k"
proof (induction k arbitrary: n)
  case 0
  then show ?case by simp
next
  case (Suc k)
  show ?case
  proof (cases "n = 0")
    case True
    then show ?thesis by simp
  next
    case False
    have "n div 2 < 2 ^ k" using Suc.prems by auto
    then have "bit_length (n div 2) \<le> k" by (rule Suc.IH)
    then show ?thesis using False by (subst bit_length.simps) simp
  qed
qed


lemma round_half_even_of_int [simp]: "round_half_even (of_int n) = n"
  by (simp add: round_half_even_def)

lemma fl_round_0 [simp]: "fl_round p q 0 = 0"
  by (simp add: fl_round_def)

text \<open>A number of the grid with a significand of at most \<open>p\<close> bits is not changed.\<close>

lemma fl_round_exact:
  assumes "\<bar>x\<bar> * 2 ^ q = real M * 2 ^ e" "M < 2 ^ p"
  shows "fl_round p q x = x"
proof -
  let ?n = "M * 2 ^ e"
  have y: "\<bar>x\<bar> * 2 ^ q = real ?n" using assms(1) by simp
  have fl: "nat \<lfloor>real ?n\<rfloor> = ?n" by (simp only: floor_of_nat nat_int)
  have "?n < 2 ^ (p + e)" using assms(2) by (simp add: power_add)
  then have "bit_length ?n \<le> p + e" by (rule bit_length_le)
  then have s: "bit_length ?n - p \<le> e" by simp
  define s where "s = bit_length ?n - p"
  have se: "s \<le> e" using s by (simp add: s_def)
  then obtain d where d: "e = s + d" using le_Suc_ex by blast
  have "real ?n / 2 ^ s = of_int (int (M * 2 ^ d))"
    by (simp add: d power_add)
  then have r: "round_half_even (real ?n / 2 ^ s) = int (M * 2 ^ d)"
    by (simp only: round_half_even_of_int)
  have "fl_round p q x = sgn x * of_int (int (M * 2 ^ d)) * 2 ^ s / 2 ^ q"
    unfolding fl_round_def Let_def y fl s_def [symmetric] r ..
  also have "\<dots> = sgn x * (real M * 2 ^ e) / 2 ^ q"
    by (simp add: d power_add)
  also have "\<dots> = sgn x * (\<bar>x\<bar> * 2 ^ q) / 2 ^ q" by (simp only: assms(1))
  also have "\<dots> = sgn x * \<bar>x\<bar>" by simp
  also have "\<dots> = x" by (simp add: sgn_real_def)
  finally show ?thesis .
qed


lemma f32_0 [simp]: "f32 0 = 0"
  by (simp add: f32_def)

lemma f64_0 [simp]: "f64 0 = 0"
  by (simp add: f64_def)

lemma f32_of_nat: "n < 2 ^ 24 \<Longrightarrow> f32 (real n) = real n"
  unfolding f32_def by (rule fl_round_exact [where M = n and e = 149]) simp_all

lemma f64_of_nat: "n < 2 ^ 53 \<Longrightarrow> f64 (real n) = real n"
  unfolding f64_def by (rule fl_round_exact [where M = n and e = 1074]) simp_all

lemma f32_1 [simp]: "f32 1 = 1"
  using f32_of_nat [of 1] by simp

lemma f64_1 [simp]: "f64 1 = 1"
  using f64_of_nat [of 1] by simp

lemma is_f32_of_nat: "n < 2 ^ 24 \<Longrightarrow> is_f32 (real n)"
proof -
  assume n: "n < 2 ^ 24"
  have "real n < 2 ^ 24" using n by (metis of_nat_less_iff of_nat_numeral of_nat_power)
  also have "\<dots> < (2::real) ^ 128" by simp
  finally show ?thesis using n by (simp add: is_f32_def f32_of_nat)
qed

lemma bit_length_gt: "n < 2 ^ bit_length n"
proof (induction n rule: less_induct)
  case (less n)
  show ?case
  proof (cases "n = 0")
    case True
    then show ?thesis by simp
  next
    case False
    then have "n div 2 < n" by simp
    then have "n div 2 < 2 ^ bit_length (n div 2)" by (rule less.IH)
    then have "n < 2 * 2 ^ bit_length (n div 2)" by linarith
    then show ?thesis using False by (subst bit_length.simps) simp
  qed
qed

lemma nat_floor_less:
  assumes "0 \<le> y" "y < real K"
  shows "nat \<lfloor>y\<rfloor> < K"
proof -
  have "\<lfloor>y\<rfloor> < int K" using assms(2) by (simp add: floor_less_iff)
  then show ?thesis using assms(1) by (simp add: nat_less_iff)
qed

lemma round_half_even_bounds:
  "\<lfloor>y\<rfloor> \<le> round_half_even y" "round_half_even y \<le> \<lfloor>y\<rfloor> + 1"
  by (simp_all add: round_half_even_def Let_def)

lemma round_half_even_nonneg: "0 \<le> y \<Longrightarrow> 0 \<le> round_half_even y"
  using round_half_even_bounds(1) [of y] by (smt (verit) zero_le_floor)

lemma round_half_even_le: "y < of_int K \<Longrightarrow> round_half_even y \<le> K"
proof -
  assume "y < of_int K"
  then have "\<lfloor>y\<rfloor> < K" by (simp add: floor_less_iff)
  then show ?thesis using round_half_even_bounds(2) [of y] by linarith
qed

text \<open>The significand of a rounded number has at most p bits, or is the next power of two.\<close>

lemma fl_round_significand:
  "0 \<le> round_half_even (\<bar>x\<bar> * 2 ^ q / 2 ^ (bit_length (nat \<lfloor>\<bar>x\<bar> * 2 ^ q\<rfloor>) - p)) \<and>
   round_half_even (\<bar>x\<bar> * 2 ^ q / 2 ^ (bit_length (nat \<lfloor>\<bar>x\<bar> * 2 ^ q\<rfloor>) - p)) \<le> 2 ^ p"
proof -
  define y where "y = \<bar>x\<bar> * 2 ^ q"
  define s where "s = bit_length (nat \<lfloor>y\<rfloor>) - p"
  have y0: "0 \<le> y" by (simp add: y_def)
  then have lo: "0 \<le> round_half_even (y / 2 ^ s)" by (intro round_half_even_nonneg) simp
  let ?n = "nat \<lfloor>y\<rfloor>"
  have "bit_length ?n \<le> s + p" by (simp add: s_def)
  then have "(2::nat) ^ bit_length ?n \<le> 2 ^ (s + p)" by (intro power_increasing) simp_all
  then have "?n < 2 ^ (s + p)" using bit_length_gt [of ?n] by linarith
  then have "int ?n < 2 ^ (s + p)"
    by (metis of_nat_less_iff of_nat_numeral of_nat_power)
  moreover have "int ?n = \<lfloor>y\<rfloor>" using y0 by simp
  ultimately have "\<lfloor>y\<rfloor> < 2 ^ (s + p)" by simp
  then have "y < of_int (2 ^ (s + p))" by (simp only: floor_less_iff)
  then have "y < 2 ^ s * 2 ^ p" by (simp add: power_add)
  then have "y / 2 ^ s < 2 ^ p" by (simp add: field_simps)
  then have "y / 2 ^ s < of_int (2 ^ p)" by simp
  then have "round_half_even (y / 2 ^ s) \<le> 2 ^ p" by (rule round_half_even_le)
  then show ?thesis using lo unfolding s_def y_def by simp
qed

lemma fl_round_idem:
  assumes "0 < p"
  shows "fl_round p q (fl_round p q x) = fl_round p q x"
proof (cases "x = 0")
  case True
  then show ?thesis by simp
next
  case False
  define y where "y = \<bar>x\<bar> * 2 ^ q"
  define s where "s = bit_length (nat \<lfloor>y\<rfloor>) - p"
  define m where "m = round_half_even (y / 2 ^ s)"
  have m: "0 \<le> m" "m \<le> 2 ^ p"
    using fl_round_significand [of x q p] by (simp_all add: m_def s_def y_def)
  have r: "fl_round p q x = sgn x * of_int m * 2 ^ s / 2 ^ q"
    by (simp add: fl_round_def Let_def m_def s_def y_def)
  have abs: "\<bar>fl_round p q x\<bar> * 2 ^ q = of_int m * 2 ^ s"
    using False m(1) by (simp add: r abs_mult sgn_real_def)
  show ?thesis
  proof (cases "m = 2 ^ p")
    case True
    obtain p' where p': "p = Suc p'" using assms by (cases p) auto
    have "of_int m * (2::real) ^ s = real (2 ^ p') * 2 ^ Suc s"
      by (simp add: True p')
    then have "\<bar>fl_round p q x\<bar> * 2 ^ q = real (2 ^ p') * 2 ^ Suc s"
      by (simp only: abs)
    moreover have "(2::nat) ^ p' < 2 ^ p" by (simp add: p')
    ultimately show ?thesis by (rule fl_round_exact)
  next
    case False
    then have "m < 2 ^ p" using m(2) by simp
    then have "nat m < 2 ^ p" using m(1) by (simp add: nat_less_iff)
    moreover have "\<bar>fl_round p q x\<bar> * 2 ^ q = real (nat m) * 2 ^ s"
      using m(1) by (simp add: abs)
    ultimately show ?thesis by (intro fl_round_exact)
  qed
qed

lemma f32_idem [simp]: "f32 (f32 x) = f32 x"
  by (simp add: f32_def fl_round_idem)

lemma fl_round_abs:
  "\<bar>fl_round p q x\<bar>
     = \<bar>sgn x\<bar> * (of_int (round_half_even (\<bar>x\<bar> * 2 ^ q / 2 ^ (bit_length (nat \<lfloor>\<bar>x\<bar> * 2 ^ q\<rfloor>) - p)))
                  * 2 ^ (bit_length (nat \<lfloor>\<bar>x\<bar> * 2 ^ q\<rfloor>) - p) / 2 ^ q)"
proof -
  have "0 \<le> round_half_even (\<bar>x\<bar> * 2 ^ q / 2 ^ (bit_length (nat \<lfloor>\<bar>x\<bar> * 2 ^ q\<rfloor>) - p))"
    by (intro round_half_even_nonneg) simp
  then show ?thesis by (simp add: fl_round_def Let_def abs_mult)
qed

lemma fl_round_abs_le_1:
  assumes "\<bar>x\<bar> \<le> 1" "0 < p"
  shows "\<bar>fl_round p q x\<bar> \<le> 1"
proof (cases "\<bar>x\<bar> = 1")
  case True
  have "(1::nat) < 2 ^ p" using assms(2) by (metis one_less_numeral_iff one_less_power semiring_norm(76))
  moreover have "\<bar>x\<bar> * 2 ^ q = real 1 * 2 ^ q" using True by simp
  ultimately have "fl_round p q x = x" by (intro fl_round_exact)
  then show ?thesis using True by simp
next
  case False
  then have lt: "\<bar>x\<bar> < 1" using assms(1) by simp
  define y where "y = \<bar>x\<bar> * 2 ^ q"
  define s where "s = bit_length (nat \<lfloor>y\<rfloor>) - p"
  define m where "m = round_half_even (y / 2 ^ s)"
  have y0: "0 \<le> y" by (simp add: y_def)
  have "y < 1 * 2 ^ q" unfolding y_def using lt by (intro mult_strict_right_mono) simp_all
  then have y1: "y < 2 ^ q" by simp
  then have "y < real ((2::nat) ^ q)" by simp
  with y0 have "nat \<lfloor>y\<rfloor> < 2 ^ q" by (rule nat_floor_less)
  then have "bit_length (nat \<lfloor>y\<rfloor>) \<le> q" by (rule bit_length_le)
  then have "s \<le> q" by (simp add: s_def)
  then obtain d where d: "q = s + d" using le_Suc_ex by blast
  have "y / 2 ^ s < 2 ^ d" using y1 by (simp add: d power_add field_simps)
  then have "y / 2 ^ s < of_int (2 ^ d)" by simp
  then have "m \<le> 2 ^ d" unfolding m_def by (rule round_half_even_le)
  then have m: "real_of_int m \<le> 2 ^ d" by (metis of_int_le_iff of_int_numeral of_int_power)
  have m0: "0 \<le> m" unfolding m_def using y0 by (intro round_half_even_nonneg) simp
  have "\<bar>fl_round p q x\<bar> = \<bar>sgn x\<bar> * (of_int m * 2 ^ s / 2 ^ q)"
    unfolding m_def s_def y_def by (rule fl_round_abs)
  also have "\<dots> \<le> 1 * (of_int m * 2 ^ s / 2 ^ q)"
    using m0 by (intro mult_right_mono) (simp_all add: sgn_real_def)
  also have "\<dots> = of_int m / 2 ^ d" by (simp add: d power_add)
  also have "\<dots> \<le> 2 ^ d / 2 ^ d" using m by (intro divide_right_mono) simp_all
  also have "\<dots> = 1" by simp
  finally show ?thesis .
qed

lemma f32_abs_le_1: "\<bar>x\<bar> \<le> 1 \<Longrightarrow> \<bar>f32 x\<bar> \<le> 1"
  by (simp add: f32_def fl_round_abs_le_1)

section \<open>The replay buffer as a ring\<close>

lemma buffer_ok_init: "buffer_ok (ReplayBuffer_init N D A)"
  by (simp add: buffer_ok_def ReplayBuffer_init_def)

lemma buffer_shaped_init: "buffer_shaped D A (ReplayBuffer_init N D A)"
  by (simp add: buffer_shaped_def buffer_ok_init)
     (simp add: ReplayBuffer_init_def list_all_iff)

lemma list_all_update: "list_all P xs \<Longrightarrow> P v \<Longrightarrow> list_all P (xs[i := v])"
  using set_update_subset_insert [of xs i v] by (auto simp: list_all_iff)

lemma assign_row_ok:
  "index < length arr \<Longrightarrow> length (arr ! index) = length row \<Longrightarrow>
   assign_row arr index row = Inr (arr[index := row])"
  by (simp add: assign_row_def)

lemma assign_row_bad:
  "index < length arr \<Longrightarrow> length row \<noteq> length (arr ! index) \<Longrightarrow> length row \<noteq> 1 \<Longrightarrow>
   assign_row arr index row = Inl ValueError"
  by (simp add: assign_row_def)

lemma store_transition_step:
  assumes "0 < mem_size b" "buffer_shaped D A b" "shaped D A (s, a, r, s', d)"
  shows "\<exists>b'. store_transition b s a r s' d = Inr b' \<and> buffer_shaped D A b' \<and>
           mem_size b' = mem_size b \<and> mem_cntr b' = mem_cntr b + 1 \<and>
           slot b' (mem_cntr b mod mem_size b) = stored (s, a, r, s', d) \<and>
           (\<forall>i. i \<noteq> mem_cntr b mod mem_size b \<longrightarrow> slot b' i = slot b i)"
proof -
  let ?i = "mem_cntr b mod mem_size b"
  have i: "?i < mem_size b" using assms(1) by simp
  have len: "length (state_memory b) = mem_size b" "length (new_state_memory b) = mem_size b"
      "length (action_memory b) = mem_size b" "length (reward_memory b) = mem_size b"
      "length (terminal_memory b) = mem_size b"
    and rows: "list_all (\<lambda>s. length s = D) (state_memory b)"
      "list_all (\<lambda>s. length s = D) (new_state_memory b)"
      "list_all (\<lambda>a. length a = A) (action_memory b)"
    using assms(2) by (simp_all add: buffer_shaped_def buffer_ok_def)
  have sh: "length s = D" "length a = A" "length s' = D" using assms(3) by simp_all
  have r1: "length (state_memory b ! ?i) = length s"
    using rows(1) i len(1) sh(1) by (simp add: list_all_length)
  have r2: "length (new_state_memory b ! ?i) = length s'"
    using rows(2) i len(2) sh(3) by (simp add: list_all_length)
  have r3: "length (action_memory b ! ?i) = length a"
    using rows(3) i len(3) sh(2) by (simp add: list_all_length)
  have a1: "assign_row (state_memory b) ?i s = Inr ((state_memory b)[?i := s])"
    using i len(1) r1 by (intro assign_row_ok) simp_all
  have a2: "assign_row (new_state_memory b) ?i s' = Inr ((new_state_memory b)[?i := s'])"
    using i len(2) r2 by (intro assign_row_ok) simp_all
  have a3: "assign_row (action_memory b) ?i a = Inr ((action_memory b)[?i := a])"
    using i len(3) r3 by (intro assign_row_ok) simp_all
  define b' where "b' = b\<lparr> state_memory := (state_memory b)[?i := s],
                new_state_memory := (new_state_memory b)[?i := s'],
                action_memory := (action_memory b)[?i := a],
                reward_memory := (reward_memory b)[?i := r],
                terminal_memory := (terminal_memory b)[?i := \<not> d],
                mem_cntr := mem_cntr b + 1 \<rparr>"
  have run: "store_transition b s a r s' d = Inr b'"
    using assms(1) i len(4,5)
    by (simp add: store_transition_def Let_def a1 a2 a3 assign_item_def b'_def)
  have shaped': "buffer_shaped D A b'"
    using len rows sh by (simp add: buffer_shaped_def buffer_ok_def b'_def list_all_update)
  have "slot b' ?i = stored (s, a, r, s', d)"
    using i len by (simp add: slot_def b'_def)
  moreover have "\<forall>j. j \<noteq> ?i \<longrightarrow> slot b' j = slot b j"
    by (simp add: slot_def b'_def)
  moreover have "mem_size b' = mem_size b" "mem_cntr b' = mem_cntr b + 1"
    by (simp_all add: b'_def)
  ultimately show ?thesis using run shaped' by blast
qed

lemma store_transition_bad_state:
  assumes "0 < mem_size b" "buffer_shaped D A b" "length s \<noteq> D" "length s \<noteq> 1"
  shows "store_transition b s a r s' d = Inl ValueError"
proof -
  let ?i = "mem_cntr b mod mem_size b"
  have i: "?i < length (state_memory b)"
    using assms(1,2) by (simp add: buffer_shaped_def buffer_ok_def)
  have "length (state_memory b ! ?i) = D"
    using assms(2) i by (simp add: buffer_shaped_def list_all_length)
  then have "assign_row (state_memory b) ?i s = Inl ValueError"
    using i assms(3,4) by (intro assign_row_bad) simp_all
  then show ?thesis using assms(1) by (simp add: store_transition_def Let_def)
qed

lemma store_all_append:
  "store_all b (ts @ us) = bind_err (store_all b ts) (\<lambda>b'. store_all b' us)"
proof (induction ts arbitrary: b)
  case Nil
  show ?case by simp
next
  case (Cons t ts)
  obtain s a r s' d where t: "t = (s, a, r, s', d)" by (cases t) auto
  show ?case
    by (cases "store_transition b s a r s' d") (simp_all add: t Cons.IH)
qed

lemma mod_shift_neq:
  fixes N :: nat
  assumes "0 < d" "d < N"
  shows "(x + d) mod N \<noteq> x mod N"
proof
  assume "(x + d) mod N = x mod N"
  then have "(x + d - x) mod N = 0"
    by (metis add_diff_cancel_left' mod_add_left_eq mod_add_self2 mod_self mod_0 diff_add_inverse mod_eq_0_iff_dvd dvd_minus_mod mod_eq_dvd_iff_nat le_add1)
  then show False using assms by simp
qed

lemma store_all_inv:
  assumes "0 < mem_size b" "buffer_shaped D A b" "list_all (shaped D A) ts"
  shows "\<exists>b'. store_all b ts = Inr b' \<and> buffer_shaped D A b' \<and> mem_size b' = mem_size b \<and>
           mem_cntr b' = mem_cntr b + length ts \<and>
           (\<forall>j<length ts. length ts \<le> j + mem_size b \<longrightarrow>
              slot b' ((mem_cntr b + j) mod mem_size b) = stored (ts ! j)) \<and>
           (\<forall>i. (\<forall>j<length ts. (mem_cntr b + j) mod mem_size b \<noteq> i) \<longrightarrow> slot b' i = slot b i)"
  using assms(3)
proof (induction ts rule: rev_induct)
  case Nil
  show ?case using assms(1,2) by simp
next
  case (snoc t ts)
  let ?N = "mem_size b" and ?c = "mem_cntr b" and ?k = "length ts"
  have shts: "list_all (shaped D A) ts" and sht: "shaped D A t"
    using snoc.prems by simp_all
  obtain b1 where b1: "store_all b ts = Inr b1" "buffer_shaped D A b1" "mem_size b1 = ?N"
      "mem_cntr b1 = ?c + ?k"
      "\<forall>j<?k. ?k \<le> j + ?N \<longrightarrow> slot b1 ((?c + j) mod ?N) = stored (ts ! j)"
      "\<forall>i. (\<forall>j<?k. (?c + j) mod ?N \<noteq> i) \<longrightarrow> slot b1 i = slot b i"
    using snoc.IH [OF shts] by blast
  obtain s a r s' d where t: "t = (s, a, r, s', d)" by (cases t) auto
  have pos: "0 < mem_size b1" using assms(1) b1(3) by simp
  obtain b2 where b2: "store_transition b1 s a r s' d = Inr b2" "buffer_shaped D A b2"
      "mem_size b2 = mem_size b1" "mem_cntr b2 = mem_cntr b1 + 1"
      "slot b2 (mem_cntr b1 mod mem_size b1) = stored (s, a, r, s', d)"
      "\<forall>i. i \<noteq> mem_cntr b1 mod mem_size b1 \<longrightarrow> slot b2 i = slot b1 i"
    using store_transition_step [OF pos b1(2) sht [unfolded t]] by blast
  have run: "store_all b (ts @ [t]) = Inr b2"
    by (simp add: store_all_append b1(1) t b2(1))
  have new: "slot b2 ((?c + j) mod ?N) = stored ((ts @ [t]) ! j)"
    if "j < length (ts @ [t])" "length (ts @ [t]) \<le> j + ?N" for j
  proof (cases "j = ?k")
    case True
    then show ?thesis using b2(5) b1(3,4) t by simp
  next
    case False
    then have jk: "j < ?k" using that(1) by simp
    have "(?c + j + (?k - j)) mod ?N \<noteq> (?c + j) mod ?N"
      using mod_shift_neq [of "?k - j" ?N "?c + j"] jk that(2) by simp
    then have "(?c + j) mod ?N \<noteq> mem_cntr b1 mod mem_size b1"
      using jk b1(3,4) by (simp add: add.assoc)
    then have "slot b2 ((?c + j) mod ?N) = slot b1 ((?c + j) mod ?N)"
      using b2(6) by blast
    also have "\<dots> = stored (ts ! j)" using b1(5) jk that(2) by simp
    finally show ?thesis using jk by (simp add: nth_append)
  qed
  have old: "slot b2 i = slot b i" if "\<forall>j<length (ts @ [t]). (?c + j) mod ?N \<noteq> i" for i
  proof -
    have "(?c + ?k) mod ?N \<noteq> i" using that by simp
    then have "slot b2 i = slot b1 i" using b2(6) b1(3,4) by simp
    moreover have "\<forall>j<?k. (?c + j) mod ?N \<noteq> i" using that by simp
    ultimately show ?thesis using b1(6) by simp
  qed
  show ?case
    using run b2(2,3,4) b1(3,4) new old by simp
qed

lemma slot_init:
  "i < N \<Longrightarrow> slot (ReplayBuffer_init N D A) i = (replicate D 0, replicate A 0, 0, replicate D 0, False)"
  by (simp add: slot_def ReplayBuffer_init_def)

lemma written_slots: "0 < N \<Longrightarrow> (\<lambda>j. j mod N) ` {..<k} = {..<min k (N::nat)}"
proof (intro equalityI subsetI)
  fix i assume "0 < N" "i \<in> (\<lambda>j. j mod N) ` {..<k}"
  then obtain j where j: "j < k" "i = j mod N" by auto
  have "j mod N < k" by (rule le_less_trans [OF mod_less_eq_dividend j(1)])
  moreover have "j mod N < N" using \<open>0 < N\<close> by simp
  ultimately show "i \<in> {..<min k N}" using j(2) by simp
next
  fix i assume "i \<in> {..<min k N}"
  then have "i < k" "i mod N = i" by simp_all
  then show "i \<in> (\<lambda>j. j mod N) ` {..<k}" by (metis imageI lessThan_iff)
qed

text \<open>
  Claim C4, as amended. In a buffer of capacity \<open>N > 0\<close>, state dimension \<open>D\<close> and action
  dimension \<open>A\<close>, starting from the empty buffer, storing any sequence of transitions
  whose rows have these dimensions succeeds; the counter is the number of insertions; a
  transition is still in slot \<open>j mod N\<close> as long as fewer than \<open>N\<close> transitions were
  stored after it, so the buffer holds the most recent \<open>N\<close>; slots not yet reached are
  still zero; the number of slots written is \<open>min(mem_cntr, mem_size)\<close>; one more
  \<open>store_transition\<close> of a transition of these dimensions succeeds, writes the five
  fields into slot \<open>mem_cntr mod N\<close> (the flag inverted), leaves the other slots alone
  and increments the counter; and a state row of another length, other than the length 1
  that numpy broadcasts, is refused with ValueError.
\<close>

theorem store_transition_ring:
  assumes "0 < N" and "list_all (shaped D A) ts"
  shows "\<exists>b. store_all (ReplayBuffer_init N D A) ts = Inr b \<and>
           mem_size b = N \<and> mem_cntr b = length ts \<and>
           (\<forall>j<length ts. length ts \<le> j + N \<longrightarrow> slot b (j mod N) = stored (ts ! j)) \<and>
           (\<forall>i<N. length ts \<le> i \<longrightarrow>
              slot b i = (replicate D 0, replicate A 0, 0, replicate D 0, False)) \<and>
           card ((\<lambda>j. j mod N) ` {..<length ts}) = min (mem_cntr b) (mem_size b) \<and>
           (\<forall>s a r s' d. shaped D A (s, a, r, s', d) \<longrightarrow>
              (\<exists>b'. store_transition b s a r s' d = Inr b' \<and>
                 mem_size b' = N \<and> mem_cntr b' = mem_cntr b + 1 \<and>
                 slot b' (mem_cntr b mod N) = (s, a, r, s', \<not> d) \<and>
                 (\<forall>i. i \<noteq> mem_cntr b mod N \<longrightarrow> slot b' i = slot b i))) \<and>
           (\<forall>s a r s' d. length s \<noteq> D \<longrightarrow> length s \<noteq> 1 \<longrightarrow>
              store_transition b s a r s' d = Inl ValueError)"
proof -
  let ?b0 = "ReplayBuffer_init N D A"
  have N: "mem_size ?b0 = N" and c: "mem_cntr ?b0 = 0"
    by (simp_all add: ReplayBuffer_init_def)
  have pos: "0 < mem_size ?b0" using assms(1) N by simp
  obtain b where b: "store_all ?b0 ts = Inr b" "buffer_shaped D A b" "mem_size b = N"
      "mem_cntr b = length ts"
      "\<forall>j<length ts. length ts \<le> j + N \<longrightarrow> slot b (j mod N) = stored (ts ! j)"
      "\<forall>i. (\<forall>j<length ts. j mod N \<noteq> i) \<longrightarrow> slot b i = slot ?b0 i"
    using store_all_inv [OF pos buffer_shaped_init assms(2)] by (auto simp: N c)
  have posb: "0 < mem_size b" using assms(1) b(3) by simp
  have fresh: "slot b i = (replicate D 0, replicate A 0, 0, replicate D 0, False)"
    if "i < N" "length ts \<le> i" for i
  proof -
    have "\<forall>j<length ts. j mod N \<noteq> i" using that by auto
    then show ?thesis using b(6) slot_init [OF that(1)] by simp
  qed
  have occ: "card ((\<lambda>j. j mod N) ` {..<length ts}) = min (mem_cntr b) (mem_size b)"
    using written_slots [OF assms(1), of "length ts"] b(3,4) by simp
  have step: "\<exists>b'. store_transition b s a r s' d = Inr b' \<and>
              mem_size b' = N \<and> mem_cntr b' = mem_cntr b + 1 \<and>
              slot b' (mem_cntr b mod N) = (s, a, r, s', \<not> d) \<and>
              (\<forall>i. i \<noteq> mem_cntr b mod N \<longrightarrow> slot b' i = slot b i)"
    if "shaped D A (s, a, r, s', d)" for s a r s' d
    using store_transition_step [OF posb b(2) that] b(3) by auto
  have bad: "store_transition b s a r s' d = Inl ValueError"
    if "length s \<noteq> D" "length s \<noteq> 1" for s a r s' d
    using posb b(2) that by (rule store_transition_bad_state)
  show ?thesis
  proof (rule exI [of _ b], intro conjI)
    show "store_all ?b0 ts = Inr b" by (rule b(1))
    show "mem_size b = N" by (rule b(3))
    show "mem_cntr b = length ts" by (rule b(4))
    show "\<forall>j<length ts. length ts \<le> j + N \<longrightarrow> slot b (j mod N) = stored (ts ! j)"
      by (rule b(5))
    show "\<forall>i<N. length ts \<le> i \<longrightarrow>
            slot b i = (replicate D 0, replicate A 0, 0, replicate D 0, False)"
      using fresh by blast
    show "card ((\<lambda>j. j mod N) ` {..<length ts}) = min (mem_cntr b) (mem_size b)" by (rule occ)
    show "\<forall>s a r s' d. shaped D A (s, a, r, s', d) \<longrightarrow>
              (\<exists>b'. store_transition b s a r s' d = Inr b' \<and>
                 mem_size b' = N \<and> mem_cntr b' = mem_cntr b + 1 \<and>
                 slot b' (mem_cntr b mod N) = (s, a, r, s', \<not> d) \<and>
                 (\<forall>i. i \<noteq> mem_cntr b mod N \<longrightarrow> slot b' i = slot b i))"
      by (intro allI impI) (rule step)
    show "\<forall>s a r s' d. length s \<noteq> D \<longrightarrow> length s \<noteq> 1 \<longrightarrow>
              store_transition b s a r s' d = Inl ValueError"
      by (intro allI impI) (rule bad)
  qed
qed

text \<open>
  Three insertions into a buffer of capacity 2: the third overwrites the first, and a
  state row of three elements is then refused.
\<close>

theorem store_transition_ring_witness:
  "\<exists>b. store_all (ReplayBuffer_init 2 1 1)
          [([1], [5], 10, [2], False), ([2], [6], 20, [3], False), ([3], [7], 30, [4], True)] = Inr b \<and>
       mem_cntr b = 3 \<and>
       slot b 0 = ([3], [7], 30, [4], False) \<and>
       slot b 1 = ([2], [6], 20, [3], True) \<and>
       store_transition b [1, 2, 3] [8] 40 [5] False = Inl ValueError"
proof -
  let ?ts = "[([1::real], [5::real], 10::real, [2::real], False), ([2], [6], 20, [3], False),
              ([3], [7], 30, [4], True)]"
  have sh: "list_all (shaped 1 1) ?ts" by simp
  obtain b where b: "store_all (ReplayBuffer_init 2 1 1) ?ts = Inr b \<and>
       mem_size b = 2 \<and> mem_cntr b = length ?ts \<and>
       (\<forall>j<length ?ts. length ?ts \<le> j + 2 \<longrightarrow> slot b (j mod 2) = stored (?ts ! j)) \<and>
       (\<forall>i<2. length ?ts \<le> i \<longrightarrow>
          slot b i = (replicate 1 0, replicate 1 0, 0, replicate 1 0, False)) \<and>
       card ((\<lambda>j. j mod 2) ` {..<length ?ts}) = min (mem_cntr b) (mem_size b) \<and>
       (\<forall>s a r s' d. shaped 1 1 (s, a, r, s', d) \<longrightarrow>
          (\<exists>b'. store_transition b s a r s' d = Inr b' \<and>
             mem_size b' = 2 \<and> mem_cntr b' = mem_cntr b + 1 \<and>
             slot b' (mem_cntr b mod 2) = (s, a, r, s', \<not> d) \<and>
             (\<forall>i. i \<noteq> mem_cntr b mod 2 \<longrightarrow> slot b' i = slot b i))) \<and>
       (\<forall>s a r s' d. length s \<noteq> 1 \<longrightarrow> length s \<noteq> 1 \<longrightarrow>
          store_transition b s a r s' d = Inl ValueError)"
    using store_transition_ring [where N = 2 and D = 1 and A = 1 and ts = ?ts, OF _ sh]
    by auto
  note run = b [THEN conjunct1]
  note cnt = b [THEN conjunct2, THEN conjunct2, THEN conjunct1]
  note slots = b [THEN conjunct2, THEN conjunct2, THEN conjunct2, THEN conjunct1]
  note bad = b [THEN conjunct2, THEN conjunct2, THEN conjunct2, THEN conjunct2, THEN conjunct2,
      THEN conjunct2, THEN conjunct2, rule_format, of "[1, 2, 3]" "[8]" 40 "[5]" False]
  have "slot b (2 mod 2) = stored (?ts ! 2)" using slots [rule_format, of 2] by simp
  moreover have "slot b (1 mod 2) = stored (?ts ! 1)" using slots [rule_format, of 1] by simp
  moreover have "store_transition b [1, 2, 3] [8] 40 [5] False = Inl ValueError"
    using bad by simp
  ultimately show ?thesis using run cnt by simp
qed

text \<open>
  Claim C4 as stated fails for a buffer of capacity 0, which \<open>__init__\<close> builds without
  complaint: the modulo raises ZeroDivisionError.
\<close>

theorem store_transition_capacity_zero:
  "store_transition (ReplayBuffer_init 0 4 2) [1, 2, 3, 4] [1, 1] 1 [0, 0, 0, 0] False
     = Inl ZeroDivisionError"
  by (simp add: store_transition_def ReplayBuffer_init_def)

section \<open>Sampling from the buffer\<close>

lemma fancy_index_ok:
  "\<forall>i\<in>set batch. i < length arr \<Longrightarrow> fancy_index arr batch = Inr (map (\<lambda>i. arr ! i) batch)"
  by (simp add: fancy_index_def list_all_iff)

lemma unit_draw_bounds: "0 \<le> Rep_unit_draw u" "Rep_unit_draw u < 1"
  using Rep_unit_draw [of u] by simp_all

lemma scaled_draw_less:
  assumes "0 < a"
  shows "nat \<lfloor>Rep_unit_draw u * real a\<rfloor> < a"
proof -
  have "Rep_unit_draw u * real a < 1 * real a"
    using assms unit_draw_bounds(2) [of u] by (intro mult_strict_right_mono) simp_all
  then have "\<lfloor>Rep_unit_draw u * real a\<rfloor> < int a" by (simp add: floor_less_iff)
  then show ?thesis using assms by linarith
qed

lemma scaled_draw_eq:
  "nat \<lfloor>Rep_unit_draw u * real a\<rfloor> = k \<longleftrightarrow>
     real k \<le> Rep_unit_draw u * real a \<and> Rep_unit_draw u * real a < real k + 1"
proof -
  have nn: "0 \<le> Rep_unit_draw u * real a" using unit_draw_bounds(1) [of u] by simp
  then have "0 \<le> \<lfloor>Rep_unit_draw u * real a\<rfloor>" by simp
  then have "nat \<lfloor>Rep_unit_draw u * real a\<rfloor> = k \<longleftrightarrow> \<lfloor>Rep_unit_draw u * real a\<rfloor> = int k"
    by linarith
  also have "\<dots> \<longleftrightarrow> real k \<le> Rep_unit_draw u * real a \<and> Rep_unit_draw u * real a < real k + 1"
    by (simp add: floor_eq_iff)
  finally show ?thesis .
qed

lemma random_choice_Inr:
  assumes "0 < a \<or> sz = 0"
  shows "random_choice a sz rng = Inr (map (\<lambda>i. nat \<lfloor>Rep_unit_draw (rng i) * real a\<rfloor>) [0..<sz])"
  using assms by (auto simp: random_choice_def)

lemma random_choice_onto:
  assumes "length xs = n" "\<forall>i\<in>set xs. i < a"
  shows "\<exists>rng. random_choice a n rng = Inr xs"
proof (cases "n = 0")
  case True
  then show ?thesis using assms(1) by (simp add: random_choice_def)
next
  case False
  then have "xs \<noteq> []" using assms(1) by auto
  then have a: "0 < a" using assms(2) by (cases xs) auto
  define rng where "rng = (\<lambda>i. Abs_unit_draw (real (xs ! i) / real a))"
  have rep: "Rep_unit_draw (rng i) = real (xs ! i) / real a" if "i < n" for i
  proof -
    have "xs ! i < a" using that assms by simp
    then have "real (xs ! i) / real a \<in> {x. 0 \<le> x \<and> x < 1}" using a by simp
    then show ?thesis unfolding rng_def by (rule Abs_unit_draw_inverse)
  qed
  have "nat \<lfloor>Rep_unit_draw (rng i) * real a\<rfloor> = xs ! i" if "i < n" for i
    using rep [OF that] a by simp
  then have "map (\<lambda>i. nat \<lfloor>Rep_unit_draw (rng i) * real a\<rfloor>) [0..<n] = xs"
    using assms(1) by (intro nth_equalityI) simp_all
  then have "random_choice a n rng = Inr xs" using a by (simp add: random_choice_def)
  then show ?thesis by blast
qed

lemma sample_buffer_at:
  assumes "buffer_ok b" "random_choice (min (mem_cntr b) (mem_size b)) n rng = Inr batch"
    and "\<forall>i\<in>set batch. i < min (mem_cntr b) (mem_size b)"
  shows "sample_buffer b n rng =
           Inr (map (\<lambda>i. state_memory b ! i) batch, map (\<lambda>i. action_memory b ! i) batch,
                map (\<lambda>i. reward_memory b ! i) batch, map (\<lambda>i. new_state_memory b ! i) batch,
                map (\<lambda>i. terminal_memory b ! i) batch)"
proof -
  have "\<forall>i\<in>set batch. i < mem_size b" using assms(3) by simp
  then show ?thesis
    using assms(1,2) by (simp add: sample_buffer_def Let_def fancy_index_ok buffer_ok_def)
qed

text \<open>
  Claim C5, as amended. \<open>sample_buffer(batch_size)\<close> asks \<open>np.random.choice\<close> for
  \<open>batch_size\<close> indices from the population \<open>[0, min(mem_cntr, mem_size))\<close>. When that
  population is empty (in particular when nothing was inserted) and \<open>batch_size\<close> is not
  0, the call fails with ValueError. Otherwise it returns: there are \<open>batch_size\<close>
  drawn indices, every one below \<open>min(mem_cntr, mem_size)\<close>, hence below the number of
  insertions, and the result is the five arrays read at these same indices, in the order
  states, actions, rewards, next states, flags. The \<open>j\<close>-th index is \<open>k\<close> exactly when
  the \<open>j\<close>-th draw of the generator, scaled to the population, lies in \<open>[k, k + 1)\<close>:
  every index has the same share of the draws (uniform), whatever the other indices are
  (independent), and every list of indices below the population, repetitions included,
  is the outcome for some generator (with replacement).
\<close>

theorem sample_buffer_draw:
  assumes "buffer_ok b"
  shows "(min (mem_cntr b) (mem_size b) = 0 \<and> n \<noteq> 0 \<longrightarrow>
            sample_buffer b n rng = Inl ValueError) \<and>
         (0 < min (mem_cntr b) (mem_size b) \<or> n = 0 \<longrightarrow>
            (\<exists>batch. random_choice (min (mem_cntr b) (mem_size b)) n rng = Inr batch \<and>
               length batch = n \<and>
               (\<forall>i\<in>set batch. i < min (mem_cntr b) (mem_size b) \<and> i < mem_cntr b) \<and>
               sample_buffer b n rng =
                 Inr (map (\<lambda>i. state_memory b ! i) batch, map (\<lambda>i. action_memory b ! i) batch,
                      map (\<lambda>i. reward_memory b ! i) batch,
                      map (\<lambda>i. new_state_memory b ! i) batch,
                      map (\<lambda>i. terminal_memory b ! i) batch) \<and>
               (\<forall>xs. length xs = n \<longrightarrow>
                  (batch = xs \<longleftrightarrow>
                     (\<forall>j<n. real (xs ! j)
                               \<le> Rep_unit_draw (rng j) * real (min (mem_cntr b) (mem_size b)) \<and>
                             Rep_unit_draw (rng j) * real (min (mem_cntr b) (mem_size b))
                               < real (xs ! j) + 1))))) \<and>
         (\<forall>xs. length xs = n \<longrightarrow> (\<forall>i\<in>set xs. i < min (mem_cntr b) (mem_size b)) \<longrightarrow>
            (\<exists>rng'. sample_buffer b n rng' =
                 Inr (map (\<lambda>i. state_memory b ! i) xs, map (\<lambda>i. action_memory b ! i) xs,
                      map (\<lambda>i. reward_memory b ! i) xs, map (\<lambda>i. new_state_memory b ! i) xs,
                      map (\<lambda>i. terminal_memory b ! i) xs)))"
proof -
  define m where "m = min (mem_cntr b) (mem_size b)"
  define batch where "batch = map (\<lambda>i. nat \<lfloor>Rep_unit_draw (rng i) * real m\<rfloor>) [0..<n]"
  have fail: "sample_buffer b n rng = Inl ValueError" if "m = 0 \<and> n \<noteq> 0"
    using that by (simp add: sample_buffer_def random_choice_def Let_def m_def)
  have ok: "\<exists>batch. random_choice m n rng = Inr batch \<and> length batch = n \<and>
               (\<forall>i\<in>set batch. i < m \<and> i < mem_cntr b) \<and>
               sample_buffer b n rng =
                 Inr (map (\<lambda>i. state_memory b ! i) batch, map (\<lambda>i. action_memory b ! i) batch,
                      map (\<lambda>i. reward_memory b ! i) batch,
                      map (\<lambda>i. new_state_memory b ! i) batch,
                      map (\<lambda>i. terminal_memory b ! i) batch) \<and>
               (\<forall>xs. length xs = n \<longrightarrow>
                  (batch = xs \<longleftrightarrow>
                     (\<forall>j<n. real (xs ! j) \<le> Rep_unit_draw (rng j) * real m \<and>
                             Rep_unit_draw (rng j) * real m < real (xs ! j) + 1)))"
    if pop: "0 < m \<or> n = 0"
  proof -
    have rc: "random_choice m n rng = Inr batch"
      unfolding batch_def using pop by (rule random_choice_Inr)
    have len: "length batch = n" by (simp add: batch_def)
    have lt: "i < m" if "i \<in> set batch" for i
    proof -
      from that obtain j where j: "j < n" "i = nat \<lfloor>Rep_unit_draw (rng j) * real m\<rfloor>"
        by (auto simp: batch_def)
      then have "0 < m" using pop by auto
      then show ?thesis unfolding j(2) by (rule scaled_draw_less)
    qed
    have lt': "\<forall>i\<in>set batch. i < m \<and> i < mem_cntr b"
      using lt by (auto simp: m_def)
    have "\<forall>i\<in>set batch. i < min (mem_cntr b) (mem_size b)" using lt by (simp add: m_def)
    then have sb: "sample_buffer b n rng =
                 Inr (map (\<lambda>i. state_memory b ! i) batch, map (\<lambda>i. action_memory b ! i) batch,
                      map (\<lambda>i. reward_memory b ! i) batch,
                      map (\<lambda>i. new_state_memory b ! i) batch,
                      map (\<lambda>i. terminal_memory b ! i) batch)"
      using sample_buffer_at [OF assms rc [unfolded m_def]] by simp
    have iff: "batch = xs \<longleftrightarrow>
                     (\<forall>j<n. real (xs ! j) \<le> Rep_unit_draw (rng j) * real m \<and>
                             Rep_unit_draw (rng j) * real m < real (xs ! j) + 1)"
      if "length xs = n" for xs
    proof -
      have "batch = xs \<longleftrightarrow> (\<forall>j<n. batch ! j = xs ! j)"
        using len that by (auto simp: list_eq_iff_nth_eq)
      also have "\<dots> \<longleftrightarrow> (\<forall>j<n. nat \<lfloor>Rep_unit_draw (rng j) * real m\<rfloor> = xs ! j)"
        by (simp add: batch_def)
      also have "\<dots> \<longleftrightarrow> (\<forall>j<n. real (xs ! j) \<le> Rep_unit_draw (rng j) * real m \<and>
                             Rep_unit_draw (rng j) * real m < real (xs ! j) + 1)"
        by (simp only: scaled_draw_eq)
      finally show ?thesis .
    qed
    show ?thesis using rc len lt' sb iff by blast
  qed
  have onto: "\<exists>rng'. sample_buffer b n rng' =
                 Inr (map (\<lambda>i. state_memory b ! i) xs, map (\<lambda>i. action_memory b ! i) xs,
                      map (\<lambda>i. reward_memory b ! i) xs, map (\<lambda>i. new_state_memory b ! i) xs,
                      map (\<lambda>i. terminal_memory b ! i) xs)"
    if xs: "length xs = n" "\<forall>i\<in>set xs. i < m" for xs
  proof -
    obtain rng' where "random_choice m n rng' = Inr xs"
      using random_choice_onto [OF xs] by blast
    then have "sample_buffer b n rng' =
                 Inr (map (\<lambda>i. state_memory b ! i) xs, map (\<lambda>i. action_memory b ! i) xs,
                      map (\<lambda>i. reward_memory b ! i) xs, map (\<lambda>i. new_state_memory b ! i) xs,
                      map (\<lambda>i. terminal_memory b ! i) xs)"
      using sample_buffer_at [OF assms, of n rng' xs] xs(2) by (simp add: m_def)
    then show ?thesis by blast
  qed
  show ?thesis
    unfolding m_def [symmetric]
  proof (intro conjI impI allI)
    show "sample_buffer b n rng = Inl ValueError" if "m = 0 \<and> n \<noteq> 0"
      using that by (rule fail)
    show "\<exists>batch. random_choice m n rng = Inr batch \<and> length batch = n \<and>
               (\<forall>i\<in>set batch. i < m \<and> i < mem_cntr b) \<and>
               sample_buffer b n rng =
                 Inr (map (\<lambda>i. state_memory b ! i) batch, map (\<lambda>i. action_memory b ! i) batch,
                      map (\<lambda>i. reward_memory b ! i) batch,
                      map (\<lambda>i. new_state_memory b ! i) batch,
                      map (\<lambda>i. terminal_memory b ! i) batch) \<and>
               (\<forall>xs. length xs = n \<longrightarrow>
                  (batch = xs \<longleftrightarrow>
                     (\<forall>j<n. real (xs ! j) \<le> Rep_unit_draw (rng j) * real m \<and>
                             Rep_unit_draw (rng j) * real m < real (xs ! j) + 1)))"
      if "0 < m \<or> n = 0"
      using that by (rule ok)
    show "\<exists>rng'. sample_buffer b n rng' =
                 Inr (map (\<lambda>i. state_memory b ! i) xs, map (\<lambda>i. action_memory b ! i) xs,
                      map (\<lambda>i. reward_memory b ! i) xs, map (\<lambda>i. new_state_memory b ! i) xs,
                      map (\<lambda>i. terminal_memory b ! i) xs)"
      if "length xs = n" "\<forall>i\<in>set xs. i < m" for xs
      using that by (rule onto)
  qed
qed

text \<open>
  A buffer of capacity 3 with two insertions, read with the draws \<open>1/2, 1/2, 0\<close>, and
  the empty buffer.
\<close>

theorem sample_buffer_draw_witness:
  "sample_buffer
     \<lparr> mem_size = 3, mem_cntr = 2, state_memory = [[1], [2], [0]],
       new_state_memory = [[2], [3], [0]], action_memory = [[5], [6], [0]],
       reward_memory = [10, 20, 0], terminal_memory = [True, False, False] \<rparr> 3
     (\<lambda>i. Abs_unit_draw (if i = 2 then 0 else 1 / 2))
     = Inr ([[2], [2], [1]], [[6], [6], [5]], [20, 20, 10], [[3], [3], [2]], [False, False, True]) \<and>
   sample_buffer (ReplayBuffer_init 3 1 1) 3 (\<lambda>i. Abs_unit_draw (if i = 2 then 0 else 1 / 2))
     = Inl ValueError"
proof -
  let ?b = "\<lparr> mem_size = 3, mem_cntr = 2, state_memory = [[1::real], [2], [0]],
       new_state_memory = [[2], [3], [0]], action_memory = [[5], [6], [0]],
       reward_memory = [10, 20, 0], terminal_memory = [True, False, False] \<rparr>"
  let ?rng = "\<lambda>i::nat. Abs_unit_draw (if i = 2 then 0 else 1 / 2)"
  have ok: "buffer_ok ?b" by (simp add: buffer_ok_def)
  have rep: "Rep_unit_draw (?rng i) = (if i = 2 then 0 else 1 / 2)" for i
    by (simp add: Abs_unit_draw_inverse)
  have "[0..<3] = [0, 1, 2]" by (simp add: upt_rec)
  then have rc: "random_choice (min (mem_cntr ?b) (mem_size ?b)) 3 ?rng = Inr [1, 1, 0]"
    by (simp add: random_choice_def rep)
  have "0 < min (mem_cntr ?b) (mem_size ?b) \<or> (3::nat) = 0" by simp
  with sample_buffer_draw [OF ok, of 3 ?rng, THEN conjunct2, THEN conjunct1]
  obtain batch where batch:
    "random_choice (min (mem_cntr ?b) (mem_size ?b)) 3 ?rng = Inr batch \<and> length batch = 3 \<and>
       (\<forall>i\<in>set batch. i < min (mem_cntr ?b) (mem_size ?b) \<and> i < mem_cntr ?b) \<and>
       sample_buffer ?b 3 ?rng =
         Inr (map (\<lambda>i. state_memory ?b ! i) batch, map (\<lambda>i. action_memory ?b ! i) batch,
              map (\<lambda>i. reward_memory ?b ! i) batch, map (\<lambda>i. new_state_memory ?b ! i) batch,
              map (\<lambda>i. terminal_memory ?b ! i) batch) \<and>
       (\<forall>xs. length xs = 3 \<longrightarrow>
          (batch = xs \<longleftrightarrow>
             (\<forall>j<3. real (xs ! j)
                       \<le> Rep_unit_draw (?rng j) * real (min (mem_cntr ?b) (mem_size ?b)) \<and>
                     Rep_unit_draw (?rng j) * real (min (mem_cntr ?b) (mem_size ?b))
                       < real (xs ! j) + 1)))"
    by blast
  have "batch = [1, 1, 0]" using batch [THEN conjunct1] rc by simp
  then have one: "sample_buffer ?b 3 ?rng
     = Inr ([[2], [2], [1]], [[6], [6], [5]], [20, 20, 10], [[3], [3], [2]], [False, False, True])"
    using batch [THEN conjunct2, THEN conjunct2, THEN conjunct2, THEN conjunct1] by simp
  have two: "sample_buffer (ReplayBuffer_init 3 1 1) 3 ?rng = Inl ValueError"
    using sample_buffer_draw [OF buffer_ok_init, of 3 1 1 3 ?rng, THEN conjunct1]
    by (simp add: ReplayBuffer_init_def)
  show ?thesis using one two by (rule conjI)
qed

text \<open>
  Claim C5 as stated fails for \<open>batch_size = 0\<close>: on the empty buffer the call returns
  five empty arrays.
\<close>

theorem sample_buffer_empty_batch:
  "mem_cntr (ReplayBuffer_init 10 4 2) = 0 \<and>
   sample_buffer (ReplayBuffer_init 10 4 2) 0 (\<lambda>i. Abs_unit_draw 0) = Inr ([], [], [], [], [])"
  by (simp add: ReplayBuffer_init_def sample_buffer_def random_choice_def fancy_index_def)

section \<open>Soft update of the target networks\<close>

lemma blend_Inr:
  assumes "\<forall>(n, a)\<in>set src. \<exists>a'. map_of tgt n = Some a' \<and> length (h a) = length (h a')"
  shows "blend t h src tgt =
           Inr (map (\<lambda>(n, a). (n, map2 (polyak t) (h a) (h (the (map_of tgt n))))) src)"
  using assms by (induction src) auto

lemma fold_load_other:
  "a \<notin> snd ` set ps \<Longrightarrow>
   fold (\<lambda>(name, a) h'. case map_of sd name of None \<Rightarrow> h' | Some t \<Rightarrow> h'(a := t)) ps h a = h a"
  by (induction ps arbitrary: h) (auto split: option.splits)

lemma fold_load_at:
  "distinct (map snd ps) \<Longrightarrow> (n, a) \<in> set ps \<Longrightarrow> map_of sd n = Some t \<Longrightarrow>
   fold (\<lambda>(name, a) h'. case map_of sd name of None \<Rightarrow> h' | Some t \<Rightarrow> h'(a := t)) ps h a = t"
proof (induction ps arbitrary: h)
  case Nil
  then show ?case by simp
next
  case (Cons p ps)
  show ?case
  proof (cases "p = (n, a)")
    case True
    then have "a \<notin> snd ` set ps" using Cons.prems(1) by auto
    then show ?thesis using True Cons.prems(3) by (simp add: fold_load_other)
  next
    case False
    then have "(n, a) \<in> set ps" using Cons.prems(2) by simp
    then show ?thesis using Cons.IH [OF _ _ Cons.prems(3)] Cons.prems(1) by simp
  qed
qed

lemma same_architecture_lookup:
  assumes "same_architecture h src tgt" "(n, a) \<in> set (named_parameters src)"
  shows "\<exists>a'. map_of (named_parameters tgt) n = Some a' \<and> (n, a') \<in> set (named_parameters tgt) \<and>
           length (h a) = length (h a')"
proof -
  let ?s = "named_parameters src" and ?t = "named_parameters tgt"
  have names: "map fst ?s = map fst ?t" and dist: "distinct (map fst ?s)"
    and shapes: "list_all2 (\<lambda>p q. length (h (snd p)) = length (h (snd q))) ?s ?t"
    using assms(1) unfolding same_architecture_def by blast+
  obtain i where i: "i < length ?s" "?s ! i = (n, a)"
    using assms(2) by (auto simp: in_set_conv_nth)
  have len: "length ?s = length ?t" using shapes by (rule list_all2_lengthD)
  have "fst (?t ! i) = n"
    using names i len by (metis fst_conv length_map nth_map)
  then obtain a' where a': "?t ! i = (n, a')" by (cases "?t ! i") auto
  have mem: "(n, a') \<in> set ?t" using a' i(1) len by (metis nth_mem)
  have "distinct (map fst ?t)" using dist names by simp
  then have "map_of ?t n = Some a'" using mem by simp
  moreover have "length (h a) = length (h a')"
    using list_all2_nthD [OF shapes i(1)] i(2) a' by simp
  ultimately show ?thesis using mem by blast
qed


lemma map_of_map_keyed:
  "map_of (map (\<lambda>(k, v). (k, f k v)) xs) k = map_option (f k) (map_of xs k)"
  by (induction xs) auto

lemma same_architecture_lookup_src:
  assumes "same_architecture h src tgt" "(n, a') \<in> set (named_parameters tgt)"
  shows "\<exists>a. map_of (named_parameters src) n = Some a \<and> (n, a) \<in> set (named_parameters src)"
proof -
  have "n \<in> set (map fst (named_parameters tgt))" using assms(2) by force
  then have "n \<in> set (map fst (named_parameters src))"
    using assms(1) by (simp add: same_architecture_def)
  then obtain a where a: "(n, a) \<in> set (named_parameters src)" by auto
  moreover have "distinct (map fst (named_parameters src))"
    using assms(1) unfolding same_architecture_def by blast
  ultimately show ?thesis by auto
qed

lemma sync_step:
  assumes arch: "same_architecture h src tgt"
    and sep: "distinct (map snd (named_parameters tgt))"
  shows "\<exists>h'. bind_err (blend t h (named_parameters src) (named_parameters tgt))
                 (\<lambda>sd. load_state_dict (named_parameters tgt) sd h) = Inr h' \<and>
           (\<forall>a. a \<notin> snd ` set (named_parameters tgt) \<longrightarrow> h' a = h a) \<and>
           (\<forall>n a a'. (n, a) \<in> set (named_parameters src) \<longrightarrow>
                      (n, a') \<in> set (named_parameters tgt) \<longrightarrow>
                      h' a' = map2 (polyak t) (h a) (h a'))"
proof -
  let ?s = "named_parameters src" and ?t = "named_parameters tgt"
  let ?v = "\<lambda>n a. map2 (polyak t) (h a) (h (the (map_of ?t n)))"
  let ?sd = "map (\<lambda>(n, a). (n, ?v n a)) ?s"
  let ?step = "\<lambda>(name, a) h'. case map_of ?sd name of None \<Rightarrow> h' | Some t \<Rightarrow> h'(a := t)"
  have names: "map fst ?s = map fst ?t" and dist: "distinct (map fst ?s)"
    using arch unfolding same_architecture_def by blast+
  have distt: "distinct (map fst ?t)" using dist names by simp
  have "\<forall>(n, a)\<in>set ?s. \<exists>a'. map_of ?t n = Some a' \<and> length (h a) = length (h a')"
    using same_architecture_lookup [OF arch] by blast
  then have bl: "blend t h ?s ?t = Inr ?sd" by (rule blend_Inr)
  have keys: "map fst ?sd = map fst ?t"
    using names by (simp add: case_prod_unfold comp_def)
  have entry: "map_of ?sd n = Some (map2 (polyak t) (h a) (h a')) \<and>
               length (h a) = length (h a')"
    if "(n, a) \<in> set ?s" "(n, a') \<in> set ?t" for n a a'
  proof -
    have "map_of ?s n = Some a" using that(1) dist by simp
    moreover have "map_of ?t n = Some a'" using that(2) distt by simp
    moreover have "length (h a) = length (h a')"
      using same_architecture_lookup [OF arch that(1)] \<open>map_of ?t n = Some a'\<close> by auto
    ultimately show ?thesis by (simp add: map_of_map_keyed)
  qed
  have shapes: "list_all (\<lambda>(name, a). case map_of ?sd name of
                    None \<Rightarrow> False | Some u \<Rightarrow> length u = length (h a)) ?t"
    unfolding list_all_iff
  proof (intro ballI)
    fix p assume p: "p \<in> set ?t"
    obtain n a' where na: "p = (n, a')" by (cases p) auto
    obtain a where a: "(n, a) \<in> set ?s"
      using same_architecture_lookup_src [OF arch] p na by blast
    show "case p of (name, a) \<Rightarrow> (case map_of ?sd name of
             None \<Rightarrow> False | Some u \<Rightarrow> length u = length (h a))"
      using entry [OF a] p na by simp
  qed
  define h' where "h' = fold ?step ?t h"
  have ld: "load_state_dict ?t ?sd h = Inr h'"
    unfolding load_state_dict_def h'_def using keys shapes by simp
  have run: "bind_err (blend t h ?s ?t) (\<lambda>sd. load_state_dict ?t sd h) = Inr h'"
    by (simp only: bl bind_err_Inr ld)
  have other: "h' a = h a" if "a \<notin> snd ` set ?t" for a
    unfolding h'_def using that by (rule fold_load_other)
  have at: "h' a' = map2 (polyak t) (h a) (h a')"
    if "(n, a) \<in> set ?s" "(n, a') \<in> set ?t" for n a a'
  proof -
    have "map_of ?sd n = Some (map2 (polyak t) (h a) (h a'))"
      using entry [OF that] by (rule conjunct1)
    then show ?thesis unfolding h'_def by (rule fold_load_at [OF sep that(2)])
  qed
  show ?thesis
  proof (intro exI [of _ h'] conjI allI impI)
    show "bind_err (blend t h ?s ?t) (\<lambda>sd. load_state_dict ?t sd h) = Inr h'" by (rule run)
  next
    fix a assume "a \<notin> snd ` set ?t"
    then show "h' a = h a" by (rule other)
  next
    fix n a a' assume "(n, a) \<in> set ?s" "(n, a') \<in> set ?t"
    then show "h' a' = map2 (polyak t) (h a) (h a')" by (rule at)
  qed
qed


lemma same_architecture_cong:
  assumes "same_architecture h src tgt"
    and "\<forall>a\<in>snd ` set (named_parameters src) \<union> snd ` set (named_parameters tgt).
           length (h' a) = length (h a)"
  shows "same_architecture h' src tgt"
proof -
  have sh: "list_all2 (\<lambda>p q. length (h (snd p)) = length (h (snd q)))
              (named_parameters src) (named_parameters tgt)"
    using assms(1) unfolding same_architecture_def by blast
  have "list_all2 (\<lambda>p q. length (h' (snd p)) = length (h' (snd q)))
              (named_parameters src) (named_parameters tgt)"
    unfolding list_all2_conv_all_nth
  proof (intro conjI allI impI)
    show "length (named_parameters src) = length (named_parameters tgt)"
      using sh by (rule list_all2_lengthD)
  next
    fix i assume i: "i < length (named_parameters src)"
    then have j: "i < length (named_parameters tgt)"
      using list_all2_lengthD [OF sh] by simp
    have "snd (named_parameters src ! i) \<in> snd ` set (named_parameters src)"
      and "snd (named_parameters tgt ! i) \<in> snd ` set (named_parameters tgt)"
      using i j by simp_all
    then have "length (h' (snd (named_parameters src ! i))) = length (h (snd (named_parameters src ! i)))"
      and "length (h' (snd (named_parameters tgt ! i))) = length (h (snd (named_parameters tgt ! i)))"
      using assms(2) by blast+
    then show "length (h' (snd (named_parameters src ! i))) = length (h' (snd (named_parameters tgt ! i)))"
      using list_all2_nthD [OF sh i] by simp
  qed
  then show ?thesis using assms(1) unfolding same_architecture_def by blast
qed

lemma update_network_parameters_heap:
  assumes ok: "agent_ok ag"
  shows "\<exists>h'. update_network_parameters tau_arg ag = Inr (ag\<lparr>params := h'\<rparr>) \<and>
           (\<forall>a. a \<notin> snd ` set (named_parameters (target_critic ag)) \<longrightarrow>
                a \<notin> snd ` set (named_parameters (target_actor ag)) \<longrightarrow> h' a = params ag a) \<and>
           (\<forall>n a a'. (n, a) \<in> set (named_parameters (critic ag)) \<longrightarrow>
                (n, a') \<in> set (named_parameters (target_critic ag)) \<longrightarrow>
                h' a' = map2 (polyak (case tau_arg of None \<Rightarrow> tau ag | Some t' \<Rightarrow> t'))
                          (params ag a) (params ag a')) \<and>
           (\<forall>n a a'. (n, a) \<in> set (named_parameters (actor ag)) \<longrightarrow>
                (n, a') \<in> set (named_parameters (target_actor ag)) \<longrightarrow>
                h' a' = map2 (polyak (case tau_arg of None \<Rightarrow> tau ag | Some t' \<Rightarrow> t'))
                          (params ag a) (params ag a'))"
proof -
  define t where "t = (case tau_arg of None \<Rightarrow> tau ag | Some t' \<Rightarrow> t')"
  define h where "h = params ag"
  let ?A = "named_parameters (actor ag)" and ?C = "named_parameters (critic ag)"
  let ?TA = "named_parameters (target_actor ag)" and ?TC = "named_parameters (target_critic ag)"
  have archA: "same_architecture h (actor ag) (target_actor ag)"
    and archC: "same_architecture h (critic ag) (target_critic ag)"
    and dist: "distinct (map snd (?A @ ?C @ ?TA @ ?TC))"
    using ok unfolding agent_ok_def h_def by blast+
  have dTC: "distinct (map snd ?TC)" and dTA: "distinct (map snd ?TA)"
    using dist by simp_all
  have A_TC: "snd ` set ?A \<inter> snd ` set ?TC = {}" and TA_TC: "snd ` set ?TA \<inter> snd ` set ?TC = {}"
    and A_TA: "snd ` set ?A \<inter> snd ` set ?TA = {}"
    using dist by auto
  obtain h1 where h1:
      "bind_err (blend t h ?C ?TC) (\<lambda>sd. load_state_dict ?TC sd h) = Inr h1"
      "\<forall>a. a \<notin> snd ` set ?TC \<longrightarrow> h1 a = h a"
      "\<forall>n a a'. (n, a) \<in> set ?C \<longrightarrow> (n, a') \<in> set ?TC \<longrightarrow>
                 h1 a' = map2 (polyak t) (h a) (h a')"
    using sync_step [OF archC dTC, of t] by blast
  have keep: "\<forall>a\<in>snd ` set ?A \<union> snd ` set ?TA. h1 a = h a"
    using h1(2) A_TC TA_TC by blast
  have archA1: "same_architecture h1 (actor ag) (target_actor ag)"
    using archA keep by (intro same_architecture_cong [OF archA]) simp
  obtain h2 where h2:
      "bind_err (blend t h1 ?A ?TA) (\<lambda>sd. load_state_dict ?TA sd h1) = Inr h2"
      "\<forall>a. a \<notin> snd ` set ?TA \<longrightarrow> h2 a = h1 a"
      "\<forall>n a a'. (n, a) \<in> set ?A \<longrightarrow> (n, a') \<in> set ?TA \<longrightarrow>
                 h2 a' = map2 (polyak t) (h1 a) (h1 a')"
    using sync_step [OF archA1 dTA, of t] by blast
  obtain csd where csd: "blend t h ?C ?TC = Inr csd" "load_state_dict ?TC csd h = Inr h1"
    using h1(1) unfolding bind_err_eq_Inr by blast
  obtain asd where asd: "blend t h1 ?A ?TA = Inr asd" "load_state_dict ?TA asd h1 = Inr h2"
    using h2(1) unfolding bind_err_eq_Inr by blast
  have run: "update_network_parameters tau_arg ag = Inr (ag\<lparr>params := h2\<rparr>)"
    unfolding update_network_parameters_def Let_def
    using csd asd by (simp only: t_def [symmetric] h_def [symmetric] bind_err_Inr)
  have other: "h2 a = h a" if "a \<notin> snd ` set ?TC" "a \<notin> snd ` set ?TA" for a
    using that h1(2) h2(2) by simp
  have crit: "h2 a' = map2 (polyak t) (h a) (h a')"
    if "(n, a) \<in> set ?C" "(n, a') \<in> set ?TC" for n a a'
  proof -
    have "a' \<in> snd ` set ?TC" using that(2) by force
    then have "a' \<notin> snd ` set ?TA" using TA_TC by blast
    then have "h2 a' = h1 a'" using h2(2) by blast
    then show ?thesis using h1(3) that by simp
  qed
  have act: "h2 a' = map2 (polyak t) (h a) (h a')"
    if "(n, a) \<in> set ?A" "(n, a') \<in> set ?TA" for n a a'
  proof -
    have "a \<in> snd ` set ?A" "a' \<in> snd ` set ?TA" using that by force+
    then have "h1 a = h a" "h1 a' = h a'" using keep by blast+
    then show ?thesis using h2(3) that by simp
  qed
  show ?thesis
    unfolding t_def [symmetric] h_def [symmetric]
    using run other crit act by blast
qed










lemma toy_agent_ok: "agent_ok toy_agent"
  by (simp add: agent_ok_def same_architecture_def toy_agent_def toy_network_def toy_heap_def)




text \<open>
  Claim C9. In such an agent \<open>update_network_parameters(tau)\<close> leaves the source Actor and
  Critic as they were: the two networks hold the same parameter objects and every
  parameter of theirs has the value it had. The store changes at the parameters of the
  target Actor and the target Critic only, and no other attribute of the agent changes.
\<close>

theorem update_network_parameters_frame:
  assumes "agent_ok ag"
  shows "\<exists>ag'. update_network_parameters tau_arg ag = Inr ag' \<and>
           actor ag' = actor ag \<and> critic ag' = critic ag \<and>
           (\<forall>name. get_param (params ag') (actor ag') name = get_param (params ag) (actor ag) name) \<and>
           (\<forall>name. get_param (params ag') (critic ag') name = get_param (params ag) (critic ag) name) \<and>
           (\<forall>a. a \<notin> snd ` set (named_parameters (target_actor ag)) \<longrightarrow>
                a \<notin> snd ` set (named_parameters (target_critic ag)) \<longrightarrow>
                params ag' a = params ag a) \<and>
           ag' = ag\<lparr>params := params ag'\<rparr>"
proof -
  let ?A = "named_parameters (actor ag)" and ?C = "named_parameters (critic ag)"
  let ?TA = "named_parameters (target_actor ag)" and ?TC = "named_parameters (target_critic ag)"
  have dist: "distinct (map snd (?A @ ?C @ ?TA @ ?TC))"
    using assms unfolding agent_ok_def by blast
  have sepA: "snd ` set ?A \<inter> snd ` set ?TA = {}" "snd ` set ?A \<inter> snd ` set ?TC = {}"
    and sepC: "snd ` set ?C \<inter> snd ` set ?TA = {}" "snd ` set ?C \<inter> snd ` set ?TC = {}"
    using dist by auto
  obtain h' where run: "update_network_parameters tau_arg ag = Inr (ag\<lparr>params := h'\<rparr>)"
    and other: "\<forall>a. a \<notin> snd ` set ?TC \<longrightarrow> a \<notin> snd ` set ?TA \<longrightarrow> h' a = params ag a"
    using update_network_parameters_heap [OF assms, of tau_arg] by blast
  have same: "get_param h' net name = get_param (params ag) net name"
    if "snd ` set (named_parameters net) \<inter> snd ` set ?TA = {}"
       "snd ` set (named_parameters net) \<inter> snd ` set ?TC = {}" for net name
  proof (cases "map_of (named_parameters net) name")
    case None
    then show ?thesis by (simp add: get_param_def)
  next
    case (Some a)
    then have "(name, a) \<in> set (named_parameters net)" by (rule map_of_SomeD)
    then have "a \<in> snd ` set (named_parameters net)" by force
    then have "a \<notin> snd ` set ?TC" "a \<notin> snd ` set ?TA" using that by blast+
    then have "h' a = params ag a" using other by blast
    then show ?thesis using Some by (simp add: get_param_def)
  qed
  define ag' where "ag' = ag\<lparr>params := h'\<rparr>"
  have sel: "params ag' = h'" "actor ag' = actor ag" "critic ag' = critic ag"
      "ag' = ag\<lparr>params := params ag'\<rparr>"
    by (simp_all add: ag'_def)
  show ?thesis
  proof (intro exI [of _ ag'] conjI allI impI)
    show "update_network_parameters tau_arg ag = Inr ag'" using run by (simp only: ag'_def)
    show "actor ag' = actor ag" by (rule sel(2))
    show "critic ag' = critic ag" by (rule sel(3))
    show "get_param (params ag') (actor ag') name = get_param (params ag) (actor ag) name" for name
      unfolding sel(1,2) by (rule same [OF sepA])
    show "get_param (params ag') (critic ag') name = get_param (params ag) (critic ag) name" for name
      unfolding sel(1,3) by (rule same [OF sepC])
    show "params ag' a = params ag a"
      if "a \<notin> snd ` set ?TA" "a \<notin> snd ` set ?TC" for a
      unfolding sel(1) using other that by blast
    show "ag' = ag\<lparr>params := params ag'\<rparr>" by (rule sel(4))
  qed
qed

text \<open>On the synthetic agent the source parameters keep their values.\<close>

theorem update_network_parameters_frame_witness:
  "\<exists>ag'. update_network_parameters (Some (1 / 4)) toy_agent = Inr ag' \<and>
     get_param (params ag') (actor ag') ''weight'' = Inr [1, 2] \<and>
     get_param (params ag') (critic ag') ''bias'' = Inr [30]"
proof -
  obtain ag' where big: "update_network_parameters (Some (1 / 4)) toy_agent = Inr ag' \<and>
     actor ag' = actor toy_agent \<and> critic ag' = critic toy_agent \<and>
     (\<forall>name. get_param (params ag') (actor ag') name
                   = get_param (params toy_agent) (actor toy_agent) name) \<and>
     (\<forall>name. get_param (params ag') (critic ag') name
                   = get_param (params toy_agent) (critic toy_agent) name) \<and>
     (\<forall>a. a \<notin> snd ` set (named_parameters (target_actor toy_agent)) \<longrightarrow>
          a \<notin> snd ` set (named_parameters (target_critic toy_agent)) \<longrightarrow>
          params ag' a = params toy_agent a) \<and>
     ag' = toy_agent\<lparr>params := params ag'\<rparr>"
    using update_network_parameters_frame [OF toy_agent_ok, of "Some (1 / 4)"] ..
  note run = big [THEN conjunct1]
  note a = big [THEN conjunct2, THEN conjunct2, THEN conjunct2, THEN conjunct1, rule_format,
      of "''weight''"]
  note c = big [THEN conjunct2, THEN conjunct2, THEN conjunct2, THEN conjunct2, THEN conjunct1,
      rule_format, of "''bias''"]
  have "get_param (params toy_agent) (actor toy_agent) ''weight'' = Inr [1, 2]"
    by (simp add: toy_agent_def toy_network_def toy_heap_def get_param_def)
  moreover have "get_param (params toy_agent) (critic toy_agent) ''bias'' = Inr [30]"
    by (simp add: toy_agent_def toy_network_def toy_heap_def get_param_def)
  ultimately show ?thesis using run a c
    by (intro exI [of _ ag']) simp
qed

end
